theory Spec2Isabelle
  imports Complex_Main "HOL-Library.Word" "HOL-Library.Sublist"
begin

unbundle bit_operations_syntax

section \<open>Data model (types.ts)\<close>

text \<open>
  The records of \<^verbatim>\<open>types.ts\<close>. A TypeScript \<^verbatim>\<open>number\<close> that holds a pixel channel, a
  coordinate or an index is an \<^typ>\<open>int\<close>; one that holds a distance or a score is a
  \<^typ>\<open>real\<close>, the value of the binary64 number. Strings are lists of 8-bit characters. Field names are those of the
  source, except that the one-letter channels \<^verbatim>\<open>r\<close>, \<^verbatim>\<open>g\<close>, \<^verbatim>\<open>b\<close> are \<open>rgb_r\<close>,
  \<open>rgb_g\<close>, \<open>rgb_b\<close> and the box fields \<^verbatim>\<open>x\<close>, \<^verbatim>\<open>y\<close>, \<^verbatim>\<open>width\<close>,
  \<^verbatim>\<open>height\<close> are \<open>box_x\<close>, \<open>box_y\<close>, \<open>box_width\<close>, \<open>box_height\<close>. Where two
  interfaces share a field name the selector is written qualified.
\<close>

record RGB =
  rgb_r :: int
  rgb_g :: int
  rgb_b :: int

record BoundingBox =
  box_x :: int
  box_y :: int
  box_width :: int
  box_height :: int

record ReferenceColor =
  colorCode :: string
  colorName :: string
  pantoneColor :: string
  rgb :: RGB
  hex :: string
  boundingBox :: BoundingBox

record ColorBox =
  rgb :: RGB
  hex :: string
  boundingBox :: BoundingBox
  bottomRightPixel :: RGB

record SwatchGroup =
  styleNumber :: string
  styleName :: string
  colors :: "ColorBox list"
  boundingBox :: BoundingBox

section \<open>Pixel predicates\<close>

text \<open>
  \<^verbatim>\<open>SwatchExtractor.isWhiteOrNearWhite\<close>: every channel above the threshold 240.
\<close>

definition isWhiteOrNearWhite :: "RGB \<Rightarrow> bool" where
  "isWhiteOrNearWhite color =
     (let threshold = 240
      in rgb_r color > threshold \<and> rgb_g color > threshold \<and> rgb_b color > threshold)"

text \<open>
  \<^verbatim>\<open>ReferenceColorExtractor.isWhiteOrNearWhite\<close>: the mean of the three channels
  above 240.
\<close>

definition ref_isWhiteOrNearWhite :: "RGB \<Rightarrow> bool" where
  "ref_isWhiteOrNearWhite color =
     (let brightness = real_of_int (rgb_r color + rgb_g color + rgb_b color) / 3
      in brightness > 240)"

text \<open>\<^verbatim>\<open>ReferenceColorExtractor.isBrightRedPixel\<close>.\<close>

definition isBrightRedPixel :: "RGB \<Rightarrow> bool" where
  "isBrightRedPixel color = (rgb_r color > 180 \<and> rgb_g color < 100 \<and> rgb_b color < 100)"

section \<open>JavaScript numbers\<close>

text \<open>
  A JavaScript number is an IEEE 754 binary64 value. A finite one is modelled by the real
  number it denotes, and an arithmetic operation of the source by the exact operation on
  the reals followed by \<open>toDouble\<close>, the rounding to the nearest binary64 value with ties
  to the even significand: a value of binary exponent \<open>e\<close> (at least \<open>-1022\<close>, where the
  subnormal numbers begin) is rounded to a multiple of \<open>2\<close> to the \<open>e - 52\<close>. Overflow to
  \<^verbatim>\<open>Infinity\<close> is not modelled: the matcher's intermediate values stay below \<open>2\<close> to the
  \<open>16\<close> for channel values between 0 and 255. \<^verbatim>\<open>Math.sqrt\<close> is taken to round correctly,
  as the IEEE operation does. The one value of the matcher that is not a real number is the
  confidence for \<^verbatim>\<open>maxDistance = 0\<close> (\<^verbatim>\<open>0 / 0\<close> is \<^verbatim>\<open>NaN\<close>, which \<^verbatim>\<open>Math.min\<close>,
  \<^verbatim>\<open>Math.max\<close> and \<^verbatim>\<open>Math.round\<close> hand on), so the confidence field is a \<open>number\<close>.
\<close>

definition roundToEven :: "real \<Rightarrow> int" where
  "roundToEven v =
     (let below = \<lfloor>v\<rfloor>
      in if v - real_of_int below < 1 / 2 then below
         else if 1 / 2 < v - real_of_int below then below + 1
         else if even below then below else below + 1)"

definition binaryExponent :: "real \<Rightarrow> int" where
  "binaryExponent v = max (- 1022) \<lfloor>log 2 \<bar>v\<bar>\<rfloor>"

definition unitInLastPlace :: "real \<Rightarrow> real" where
  "unitInLastPlace v = 2 powr real_of_int (binaryExponent v - 52)"

definition toDouble :: "real \<Rightarrow> real" where
  "toDouble v =
     (if v = 0 then 0
      else real_of_int (roundToEven (v / unitInLastPlace v)) * unitInLastPlace v)"

text \<open>\<^verbatim>\<open>Math.round\<close>: the nearest integer, halves upwards. \<^verbatim>\<open>Math.sqrt\<close>: the rounded root.\<close>

definition Math_round :: "real \<Rightarrow> int" where
  "Math_round v = \<lfloor>v + 1 / 2\<rfloor>"

definition Math_sqrt :: "real \<Rightarrow> real" where
  "Math_sqrt v = toDouble (sqrt v)"

section \<open>ColorMatcher (color-matcher.ts)\<close>

datatype number = Num real | NaN

record ClosestMatch =
  reference :: ReferenceColor
  distance :: real
  confidence :: number

record MatchedReference =
  colorCode :: string
  colorName :: string
  pantoneColor :: string
  distance :: real
  confidence :: number

record MatchedColor = ColorBox +
  matchedReference :: MatchedReference

record MatchedSwatch =
  styleNumber :: string
  styleName :: string
  colors :: "MatchedColor list"
  boundingBox :: BoundingBox

text \<open>
  The result record without \<^verbatim>\<open>timestamp\<close> (the wall clock) and \<^verbatim>\<open>matchingMethod\<close>
  (a label printed from \<^verbatim>\<open>maxDistance\<close>).
\<close>

record ColorMatchingResult =
  totalSwatches :: nat
  totalColors :: nat
  totalReferenceColors :: nat
  swatches :: "MatchedSwatch list"
  referenceColors :: "ReferenceColor list"

text \<open>The two private fields of the class; the constructor's default distance is 150.\<close>

record ColorMatcher =
  referenceColors :: "ReferenceColor list"
  maxDistance :: real

definition new_ColorMatcher :: "ReferenceColor list \<Rightarrow> real option \<Rightarrow> ColorMatcher" where
  "new_ColorMatcher refs maxDistanceArg =
     \<lparr>referenceColors = refs,
      maxDistance = (case maxDistanceArg of None \<Rightarrow> 150 | Some d \<Rightarrow> d)\<rparr>"

text \<open>
  \<^verbatim>\<open>calculateColorDistance\<close>. The channels are integers, so the differences, their squares
  (\<^verbatim>\<open>Math.pow(d, 2)\<close>) and the sum are integers, which binary64 holds exactly below \<open>2\<close> to
  the \<open>53\<close>; the root is rounded.
\<close>

definition calculateColorDistance :: "RGB \<Rightarrow> RGB \<Rightarrow> real" where
  "calculateColorDistance color1 color2 =
     (let dr = rgb_r color1 - rgb_r color2;
          dg = rgb_g color1 - rgb_g color2;
          db = rgb_b color1 - rgb_b color2
      in Math_sqrt (real_of_int (dr * dr + dg * dg + db * db)))"

text \<open>
  The \<^verbatim>\<open>for ... of\<close> loop of \<^verbatim>\<open>findClosestReferenceColor\<close>. Its two variables
  \<^verbatim>\<open>closestReference\<close> and \<^verbatim>\<open>minDistance\<close> change together, so the state is one
  optional pair: \<open>None\<close> is the initial \<^verbatim>\<open>(null, Infinity)\<close>, below which every
  distance lies.
\<close>

fun closestLoop :: "ColorBox \<Rightarrow> ReferenceColor list \<Rightarrow> (ReferenceColor \<times> real) option
    \<Rightarrow> (ReferenceColor \<times> real) option" where
  "closestLoop swatchColor [] best = best"
| "closestLoop swatchColor (referenceColor # rest) best =
     (let dist = calculateColorDistance (ColorBox.rgb swatchColor) (ReferenceColor.rgb referenceColor)
      in closestLoop swatchColor rest
           (case best of
              None \<Rightarrow> Some (referenceColor, dist)
            | Some (closestReference, minDistance) \<Rightarrow>
                if dist < minDistance then Some (referenceColor, dist)
                else Some (closestReference, minDistance)))"

definition findClosestReferenceColor :: "ColorMatcher \<Rightarrow> ColorBox \<Rightarrow> ClosestMatch option" where
  "findClosestReferenceColor this swatchColor =
     (if length (ColorMatcher.referenceColors this) = 0 then None
      else case closestLoop swatchColor (ColorMatcher.referenceColors this) None of
        None \<Rightarrow> None
      | Some (closestReference, minDistance) \<Rightarrow>
          if minDistance \<le> maxDistance this then
            (let conf = (if maxDistance this = 0 then NaN
                         else Num (max 0 (min 100
                                (toDouble (100 - toDouble (toDouble (minDistance / maxDistance this) * 100))))))
             in Some \<lparr>reference = closestReference,
                      distance = minDistance,
                      confidence = (case conf of NaN \<Rightarrow> NaN
                                    | Num c \<Rightarrow>
                                        Num (toDouble (real_of_int (Math_round (toDouble (c * 100))) / 100)))\<rparr>)
          else None)"

text \<open>The body of the inner loop of \<^verbatim>\<open>matchSwatchesWithReferences\<close>: one record per color.\<close>

definition matchColor :: "ColorMatcher \<Rightarrow> ColorBox \<Rightarrow> MatchedColor" where
  "matchColor this color =
     (case findClosestReferenceColor this color of
        Some match \<Rightarrow>
          \<lparr>rgb = ColorBox.rgb color, hex = ColorBox.hex color,
           boundingBox = ColorBox.boundingBox color,
           bottomRightPixel = bottomRightPixel color,
           matchedReference =
             \<lparr>colorCode = ReferenceColor.colorCode (reference match),
              colorName = ReferenceColor.colorName (reference match),
              pantoneColor = ReferenceColor.pantoneColor (reference match),
              distance = toDouble (real_of_int
                           (Math_round (toDouble (ClosestMatch.distance match * 100))) / 100),
              confidence = ClosestMatch.confidence match\<rparr>\<rparr>
      | None \<Rightarrow>
          \<lparr>rgb = ColorBox.rgb color, hex = ColorBox.hex color,
           boundingBox = ColorBox.boundingBox color,
           bottomRightPixel = bottomRightPixel color,
           matchedReference =
             \<lparr>colorCode = ''UNKNOWN'',
              colorName = ''No Match Found'',
              pantoneColor = ''N/A'',
              distance = - 1,
              confidence = Num 0\<rparr>\<rparr>)"

fun matchColors :: "ColorMatcher \<Rightarrow> ColorBox list \<Rightarrow> MatchedColor list" where
  "matchColors this [] = []"
| "matchColors this (color # rest) = matchColor this color # matchColors this rest"

definition matchSwatch :: "ColorMatcher \<Rightarrow> SwatchGroup \<Rightarrow> MatchedSwatch" where
  "matchSwatch this swatch =
     \<lparr>styleNumber = SwatchGroup.styleNumber swatch,
      styleName = SwatchGroup.styleName swatch,
      colors = matchColors this (SwatchGroup.colors swatch),
      boundingBox = SwatchGroup.boundingBox swatch\<rparr>"

fun matchSwatches :: "ColorMatcher \<Rightarrow> SwatchGroup list \<Rightarrow> MatchedSwatch list \<times> nat" where
  "matchSwatches this [] = ([], 0)"
| "matchSwatches this (swatch # rest) =
     (let (matchedRest, countRest) = matchSwatches this rest
      in (matchSwatch this swatch # matchedRest, length (SwatchGroup.colors swatch) + countRest))"


text \<open>Shorthand for the distance between a sampled color and a reference entry.\<close>

abbreviation (input) distanceTo :: "ColorBox \<Rightarrow> ReferenceColor \<Rightarrow> real" where
  "distanceTo sw ref \<equiv> calculateColorDistance (ColorBox.rgb sw) (ReferenceColor.rgb ref)"

section \<open>Strings and number printing\<close>

text \<open>
  The JavaScript string operations the modelled code uses, on lists of 8-bit characters.
  \<^verbatim>\<open>\d\<close> is an ASCII digit; \<^verbatim>\<open>\s\<close> and \<^verbatim>\<open>trim\<close> know, within 8 bits, the characters
  tab, line feed, vertical tab, form feed, carriage return, space and no-break space.
\<close>

definition isDigit :: "char \<Rightarrow> bool" where
  "isDigit c = (c \<in> set ''0123456789'')"

definition isSpace :: "char \<Rightarrow> bool" where
  "isSpace c = (of_char c \<in> {9, 10, 11, 12, 13, 32, 160 :: nat})"

text \<open>\<^verbatim>\<open>String.prototype.includes\<close>: the argument occurs as a contiguous piece.\<close>

fun str_includes :: "string \<Rightarrow> string \<Rightarrow> bool" where
  "str_includes [] sub = (sub = [])"
| "str_includes (c # cs) sub = (prefix sub (c # cs) \<or> str_includes cs sub)"

text \<open>\<^verbatim>\<open>padStart(n, c)\<close> with a one-character filler.\<close>

definition padStart :: "nat \<Rightarrow> char \<Rightarrow> string \<Rightarrow> string" where
  "padStart n c s = replicate (n - length s) c @ s"

text \<open>
  \<^verbatim>\<open>Number.prototype.toString(radix)\<close> for an integer value and a radix from 2 to 16:
  lower-case digits, a minus sign for a negative number.
\<close>

definition digitChar :: "nat \<Rightarrow> char" where
  "digitChar d = ''0123456789abcdef'' ! (d mod 16)"

function natToString :: "nat \<Rightarrow> nat \<Rightarrow> string" where
  "natToString radix n =
     (if radix < 2 \<or> n < radix then [digitChar n]
      else natToString radix (n div radix) @ [digitChar (n mod radix)])"
  by pat_completeness auto
termination
  by (relation "measure snd") auto

definition toString :: "nat \<Rightarrow> int \<Rightarrow> string" where
  "toString radix i =
     (if i < 0 then CHR ''-'' # natToString radix (nat (- i)) else natToString radix (nat i))"

text \<open>
  \<^verbatim>\<open>toUpperCase\<close>, on the strings the code applies it to (digits, the letters \<^verbatim>\<open>a\<close> to
  \<^verbatim>\<open>z\<close>, a sign).
\<close>

definition upperChar :: "char \<Rightarrow> char" where
  "upperChar c =
     (if c \<in> set ''abcdefghijklmnopqrstuvwxyz'' then char_of (of_char c - (32 :: nat)) else c)"

definition toUpperCase :: "string \<Rightarrow> string" where
  "toUpperCase s = map upperChar s"

text \<open>
  The remainder operator \<^verbatim>\<open>%\<close> on integer values truncates towards zero: the result has
  the sign of the dividend.
\<close>

definition js_rem :: "int \<Rightarrow> int \<Rightarrow> int" where
  "js_rem a n = sgn a * (\<bar>a\<bar> mod \<bar>n\<bar>)"

text \<open>
  The shift \<^verbatim>\<open>a << k\<close> works on the 32-bit two's complement value of \<^verbatim>\<open>a\<close> and gives a
  signed 32-bit result.
\<close>

definition shiftLeft32 :: "int \<Rightarrow> nat \<Rightarrow> int" where
  "shiftLeft32 a k = sint (push_bit k (word_of_int a :: 32 word))"

text \<open>\<^verbatim>\<open>PDFProcessor.rgbToHex\<close>.\<close>

definition rgbToHex :: "int \<Rightarrow> int \<Rightarrow> int \<Rightarrow> string" where
  "rgbToHex cr cg cb =
     CHR ''#'' # toUpperCase (drop 1 (toString 16
        (shiftLeft32 1 24 + shiftLeft32 cr 16 + shiftLeft32 cg 8 + cb)))"

section \<open>ColorValidator (validate-and-correct.ts)\<close>

record ExpectedColor =
  code :: string
  name :: string
  position :: int

definition expectedColors :: "ExpectedColor list" where
  "expectedColors =
     [\<lparr>code = ''B60002'', name = ''New Black'', position = 15\<rparr>,
      \<lparr>code = ''B10093'', name = ''Deep Depths'', position = 75\<rparr>,
      \<lparr>code = ''B50027'', name = ''Lemonade'', position = 137\<rparr>,
      \<lparr>code = ''B30192'', name = ''Chocolate'', position = 198\<rparr>,
      \<lparr>code = ''B30194'', name = ''Falcon Brown'', position = 260\<rparr>,
      \<lparr>code = ''B30193'', name = ''Clay'', position = 322\<rparr>,
      \<lparr>code = ''B30195'', name = ''Rose Gray'', position = 384\<rparr>,
      \<lparr>code = ''B10119'', name = ''Gardenia'', position = 447\<rparr>,
      \<lparr>code = ''B20162'', name = ''Coastline Blue'', position = 508\<rparr>,
      \<lparr>code = ''B20033'', name = ''Dazzling Blue'', position = 570\<rparr>,
      \<lparr>code = ''B20111'', name = ''Navy'', position = 633\<rparr>]"

record Correction =
  originalIndex :: nat
  correctedColor :: ReferenceColor
  reason :: string

text \<open>
  The result without \<^verbatim>\<open>summary\<close>, a report for the console that no other function reads.
\<close>

record ValidationResult =
  isValid :: bool
  corrections :: "Correction list"

text \<open>The regular expression \<^verbatim>\<open>/^C\d{4}$/\<close>: the letter C and exactly four digits.\<close>

definition hasFallbackCode :: "string \<Rightarrow> bool" where
  "hasFallbackCode s =
     (case s of [] \<Rightarrow> False
      | c # ds \<Rightarrow> c = CHR ''C'' \<and> length ds = 4 \<and> list_all isDigit ds)"

definition hasGenericName :: "string \<Rightarrow> bool" where
  "hasGenericName s = (str_includes s ''Color at '' \<or> s = ''Unknown'' \<or> length s < 3)"

definition isOCRFailure :: "ReferenceColor \<Rightarrow> bool" where
  "isOCRFailure extractedColor =
     (hasFallbackCode (ReferenceColor.colorCode extractedColor)
      \<or> hasGenericName (ReferenceColor.colorName extractedColor))"

text \<open>
  \<^verbatim>\<open>findExpectedColorByPosition\<close>: the loop returns the first table entry within the
  tolerance.
\<close>

fun findExpectedLoop :: "int \<Rightarrow> ExpectedColor list \<Rightarrow> ExpectedColor option" where
  "findExpectedLoop pos [] = None"
| "findExpectedLoop pos (expected # rest) =
     (let tolerance = 200
      in if \<bar>pos - position expected\<bar> \<le> tolerance then Some expected
         else findExpectedLoop pos rest)"

definition findExpectedColorByPosition :: "int \<Rightarrow> ExpectedColor option" where
  "findExpectedColorByPosition pos = findExpectedLoop pos expectedColors"

text \<open>
  The body of the loop of \<^verbatim>\<open>validateAndCorrect\<close> for the entry at index \<open>i\<close>: the
  correction it pushes, if any.
\<close>

definition correctionFor :: "nat \<Rightarrow> ReferenceColor \<Rightarrow> Correction option" where
  "correctionFor i extractedColor =
     (if isOCRFailure extractedColor then
        (case findExpectedColorByPosition (box_x (ReferenceColor.boundingBox extractedColor)) of
           Some expectedColor \<Rightarrow>
             Some \<lparr>originalIndex = i,
                   correctedColor = extractedColor
                     \<lparr>ReferenceColor.colorCode := code expectedColor,
                      ReferenceColor.colorName := name expectedColor\<rparr>,
                   reason = ''OCR failed, applied correction based on position. Expected ''
                     @ code expectedColor @ '', got ''
                     @ ReferenceColor.colorCode extractedColor @ ''.''\<rparr>
         | None \<Rightarrow> None)
      else None)"

fun validateLoop :: "ReferenceColor list \<Rightarrow> nat \<Rightarrow> Correction list \<Rightarrow> Correction list" where
  "validateLoop [] i acc = acc"
| "validateLoop (extractedColor # rest) i acc =
     validateLoop rest (i + 1)
       (case correctionFor i extractedColor of
          Some correction \<Rightarrow> acc @ [correction]
        | None \<Rightarrow> acc)"

definition validateAndCorrect :: "ReferenceColor list \<Rightarrow> ValidationResult" where
  "validateAndCorrect extractedColors =
     (let found = validateLoop extractedColors 0 []
      in \<lparr>isValid = (length found = 0), corrections = found\<rparr>)"

text \<open>
  \<^verbatim>\<open>applyCorrections\<close> copies the array and assigns by index. An assignment past the end
  of a JavaScript array extends it and leaves holes, so the copy is a list of optional
  entries with \<open>None\<close> for a hole.
\<close>

definition arrayAssign :: "'a option list \<Rightarrow> nat \<Rightarrow> 'a \<Rightarrow> 'a option list" where
  "arrayAssign xs i v =
     (if i < length xs then xs[i := Some v]
      else xs @ replicate (i - length xs) None @ [Some v])"

fun applyLoop :: "ReferenceColor option list \<Rightarrow> Correction list \<Rightarrow> ReferenceColor option list" where
  "applyLoop correctedColors [] = correctedColors"
| "applyLoop correctedColors (correction # rest) =
     applyLoop (arrayAssign correctedColors (originalIndex correction) (correctedColor correction)) rest"

definition applyCorrections :: "ReferenceColor list \<Rightarrow> Correction list \<Rightarrow> ReferenceColor option list" where
  "applyCorrections extractedColors corrs = applyLoop (map Some extractedColors) corrs"

section \<open>The synthetic fallback of ReferenceColorExtractor\<close>

text \<open>\<^verbatim>\<open>generateFallbackColorCode\<close>.\<close>

definition generateFallbackColorCode :: "int \<Rightarrow> RGB \<Rightarrow> string" where
  "generateFallbackColorCode px color =
     (let sect = px div 200 + 1;
          colorHash = js_rem (rgb_r color + rgb_g color + rgb_b color) 1000
      in ''C'' @ toString 10 sect @ padStart 3 CHR ''0'' (toString 10 colorHash))"

text \<open>
  The last \<^verbatim>\<open>return\<close> of \<^verbatim>\<open>extractColorInfoEnhanced\<close>, reached when no recognised text
  gives a code: the entry is built from the region's box and its sampled color alone.
\<close>

definition finalFallback :: "BoundingBox \<Rightarrow> RGB \<Rightarrow> ReferenceColor" where
  "finalFallback bbox regionColor =
     (let fallbackColorCode = generateFallbackColorCode (box_x bbox) regionColor
      in \<lparr>ReferenceColor.colorCode = fallbackColorCode,
          colorName = ''Color at '' @ toString 10 (box_x bbox),
          pantoneColor = ''Unknown'',
          rgb = regionColor,
          hex = rgbToHex (rgb_r regionColor) (rgb_g regionColor) (rgb_b regionColor),
          boundingBox = bbox\<rparr>)"

section \<open>SwatchExtractor (swatch-extractor.ts)\<close>

subsection \<open>Raw images\<close>

text \<open>
  What \<^verbatim>\<open>sharp(...).raw().toBuffer()\<close> and \<^verbatim>\<open>metadata()\<close> hand to the scanners: a byte
  buffer with the width, height and channel count. Reading a \<^verbatim>\<open>Buffer\<close> at an index
  outside it gives \<^verbatim>\<open>undefined\<close>, here \<open>None\<close>.
\<close>

record RawImage =
  imageBuffer :: "8 word list"
  img_width :: int
  img_height :: int
  img_channels :: int

definition bufferAt :: "8 word list \<Rightarrow> int \<Rightarrow> int option" where
  "bufferAt buf i = (if 0 \<le> i \<and> i < int (length buf) then Some (uint (buf ! nat i)) else None)"

text \<open>
  The three reads \<^verbatim>\<open>imageBuffer[pixelIndex]\<close>, \<^verbatim>\<open>[pixelIndex + 1]\<close>, \<^verbatim>\<open>[pixelIndex + 2]\<close> at
  the pixel \<open>(px, py)\<close>.
\<close>

definition readPixel :: "RawImage \<Rightarrow> int \<Rightarrow> int \<Rightarrow> int option \<times> int option \<times> int option" where
  "readPixel img px py =
     (let pixelIndex = (py * img_width img + px) * img_channels img
      in (bufferAt (imageBuffer img) pixelIndex,
          bufferAt (imageBuffer img) (pixelIndex + 1),
          bufferAt (imageBuffer img) (pixelIndex + 2)))"

text \<open>
  \<^verbatim>\<open>isWhiteOrNearWhite\<close> on what was read: a comparison \<^verbatim>\<open>undefined > 240\<close> is false, so
  a pixel with a channel outside the buffer is not white.
\<close>

definition whiteRead :: "int option \<times> int option \<times> int option \<Rightarrow> bool" where
  "whiteRead p =
     (case p of
        (Some cr, Some cg, Some cb) \<Rightarrow> isWhiteOrNearWhite \<lparr>rgb_r = cr, rgb_g = cg, rgb_b = cb\<rparr>
      | _ \<Rightarrow> False)"

definition whiteAt :: "RawImage \<Rightarrow> int \<Rightarrow> int \<Rightarrow> bool" where
  "whiteAt img px py = whiteRead (readPixel img px py)"

subsection \<open>Row detection\<close>

record RowBoundary =
  startY :: int
  endY :: int
  row_height :: int

text \<open>
  \<^verbatim>\<open>findRowStart\<close>: the loop \<^verbatim>\<open>for (let y = startY; y < height - 10; y++)\<close>, with the
  back-off margin of 45 rows.
\<close>

function findRowStart :: "RawImage \<Rightarrow> int \<Rightarrow> int \<Rightarrow> int option" where
  "findRowStart img scanX py =
     (if py < img_height img - 10 then
        (if \<not> whiteAt img scanX py then
           (let textMargin = 45 in Some (max 0 (py - textMargin)))
         else findRowStart img scanX (py + 1))
      else None)"
  by pat_completeness auto
termination
  by (relation "measure (\<lambda>(img, scanX, py). nat (img_height img - 10 - py))") auto

text \<open>
  \<^verbatim>\<open>findRowEnd\<close>: the loop from \<^verbatim>\<open>rowStart\<close> with its counter of consecutive white
  rows.
\<close>

function findRowEndLoop :: "RawImage \<Rightarrow> int \<Rightarrow> int \<Rightarrow> int \<Rightarrow> int \<Rightarrow> int \<Rightarrow> int option" where
  "findRowEndLoop img scanX rowStart whiteSpaceThreshold py consecutiveWhitePixels =
     (if py < img_height img - 10 then
        (if whiteAt img scanX py then
           (let consecutive = consecutiveWhitePixels + 1
            in if consecutive \<ge> whiteSpaceThreshold then
                 (let rowEnd = py - whiteSpaceThreshold in Some (max rowEnd (rowStart + 1)))
               else findRowEndLoop img scanX rowStart whiteSpaceThreshold (py + 1) consecutive)
         else findRowEndLoop img scanX rowStart whiteSpaceThreshold (py + 1) 0)
      else None)"
  by pat_completeness auto
termination
  by (relation "measure (\<lambda>(img, scanX, rowStart, t, py, c). nat (img_height img - 10 - py))") auto

definition findRowEnd :: "RawImage \<Rightarrow> int \<Rightarrow> int \<Rightarrow> int \<Rightarrow> int option" where
  "findRowEnd img scanX rowStart whiteSpaceThreshold =
     findRowEndLoop img scanX rowStart whiteSpaceThreshold rowStart 0"

text \<open>
  One turn of the loop of \<^verbatim>\<open>detectRows\<close>: \<^verbatim>\<open>findRowStart\<close> from \<^verbatim>\<open>currentY\<close>, then
  \<^verbatim>\<open>findRowEnd\<close> from the start it found; the row is pushed only when both return a
  value. \<^verbatim>\<open>detectRows\<close> calls it with \<^verbatim>\<open>scanX = 100\<close> and \<^verbatim>\<open>whiteSpaceThreshold = 50\<close>.
\<close>

definition detectRow :: "RawImage \<Rightarrow> int \<Rightarrow> int \<Rightarrow> int \<Rightarrow> RowBoundary option" where
  "detectRow img scanX currentY whiteSpaceThreshold =
     (case findRowStart img scanX currentY of
        None \<Rightarrow> None
      | Some rowStart \<Rightarrow>
          (case findRowEnd img scanX rowStart whiteSpaceThreshold of
             None \<Rightarrow> None
           | Some rowEnd \<Rightarrow>
               Some \<lparr>startY = rowStart, endY = rowEnd, row_height = rowEnd - rowStart\<rparr>))"

subsection \<open>Swatch text\<close>

text \<open>\<^verbatim>\<open>split('\n')\<close>: the pieces between line feeds, at least one.\<close>

fun splitLines :: "string \<Rightarrow> string list" where
  "splitLines [] = [[]]"
| "splitLines (c # cs) =
     (if c = CHR 0x0A then [] # splitLines cs
      else (case splitLines cs of [] \<Rightarrow> [[c]] | l # ls \<Rightarrow> (c # l) # ls))"

definition trim :: "string \<Rightarrow> string" where
  "trim s = rev (dropWhile isSpace (rev (dropWhile isSpace s)))"

text \<open>\<^verbatim>\<open>replace(/\s+/g, ' ')\<close>: every maximal run of white space becomes one space.\<close>

function collapseSpaces :: "string \<Rightarrow> string" where
  "collapseSpaces [] = []"
| "collapseSpaces (c # cs) =
     (if isSpace c then CHR '' '' # collapseSpaces (dropWhile isSpace cs)
      else c # collapseSpaces cs)"
  by pat_completeness auto
termination
  by (relation "measure length") (auto simp: length_dropWhile_le less_Suc_eq_le)

record SwatchText =
  styleNumber :: string
  styleName :: string

text \<open>
  \<^verbatim>\<open>parseSwatchText\<close>, statement by statement; an empty string is falsy in the tests
  \<^verbatim>\<open>if (styleName)\<close>, \<^verbatim>\<open>!styleName\<close> and \<^verbatim>\<open>styleNumber || 'Unknown'\<close>.
\<close>

definition parseSwatchText :: "string \<Rightarrow> SwatchText option" where
  "parseSwatchText text =
     (let lines = filter (\<lambda>line. length line > 0) (map trim (splitLines text))
      in if length lines = 0 then None
         else
           (let styleNumber1 = (if length lines > 0 \<and> length (lines ! 0) \<ge> 6
                                then take 6 (lines ! 0) else []);
                styleName1 = (if length lines > 1 then lines ! 1 else []);
                styleName2 = (if styleName1 \<noteq> []
                              then trim (collapseSpaces (filter (\<lambda>c. c \<noteq> CHR ''|'') styleName1))
                              else styleName1);
                styleName3 = (if styleName2 = [] \<and> length lines > 0
                              then (let remainingFirstLine = trim (drop 6 (lines ! 0))
                                    in if length remainingFirstLine > 2 then remainingFirstLine
                                       else styleName2)
                              else styleName2)
            in Some \<lparr>SwatchText.styleNumber = (if styleNumber1 = [] then ''Unknown'' else styleNumber1),
                     styleName = (if styleName3 = [] then ''Unknown'' else styleName3)\<rparr>))"

text \<open>
  What \<^verbatim>\<open>extractSwatchFromBoundary\<close> does with the recognised text: the text is trimmed
  and parsed, and a failed parse makes the function return \<^verbatim>\<open>null\<close>. The recognised
  text, the colors found in the region and its box are parameters here; cropping the
  image and running the recognition engine are outside the model.
\<close>

definition swatchFromText :: "string \<Rightarrow> ColorBox list \<Rightarrow> BoundingBox \<Rightarrow> SwatchGroup option" where
  "swatchFromText recognised boxColors bbox =
     (case parseSwatchText (trim recognised) of
        None \<Rightarrow> None
      | Some textInfo \<Rightarrow>
          Some \<lparr>SwatchGroup.styleNumber = SwatchText.styleNumber textInfo,
                styleName = SwatchText.styleName textInfo,
                colors = boxColors,
                boundingBox = bbox\<rparr>)"

text \<open>
  The loop of \<^verbatim>\<open>extractSwatchGroupsFromRow\<close> over the regions of a row: a region whose
  extraction returned \<^verbatim>\<open>null\<close> is skipped.
\<close>

fun swatchesOfRow :: "(string \<times> ColorBox list \<times> BoundingBox) list \<Rightarrow> SwatchGroup list" where
  "swatchesOfRow [] = []"
| "swatchesOfRow ((recognised, boxColors, bbox) # rest) =
     (case swatchFromText recognised boxColors bbox of
        Some swatch \<Rightarrow> swatch # swatchesOfRow rest
      | None \<Rightarrow> swatchesOfRow rest)"

subsection \<open>Dominant color of a color box\<close>

text \<open>
  The sums of \<^verbatim>\<open>extractDominantColor\<close>: \<^verbatim>\<open>totalR\<close>, \<^verbatim>\<open>totalG\<close>, \<^verbatim>\<open>totalB\<close> and
  \<^verbatim>\<open>pixelCount\<close>. A pixel with a channel read outside the buffer is not white, so it is
  added, and adding \<^verbatim>\<open>undefined\<close> turns a sum into \<^verbatim>\<open>NaN\<close>; \<open>None\<close> is the state in
  which that has happened.
\<close>

type_synonym ColorSums = "(int \<times> int \<times> int \<times> int) option"

definition addPixel :: "int option \<times> int option \<times> int option \<Rightarrow> ColorSums \<Rightarrow> ColorSums" where
  "addPixel p totals =
     (case totals of
        None \<Rightarrow> None
      | Some (totalR, totalG, totalB, pixelCount) \<Rightarrow>
          (case p of
             (Some cr, Some cg, Some cb) \<Rightarrow>
               if \<not> isWhiteOrNearWhite \<lparr>rgb_r = cr, rgb_g = cg, rgb_b = cb\<rparr>
               then Some (totalR + cr, totalG + cg, totalB + cb, pixelCount + 1)
               else Some (totalR, totalG, totalB, pixelCount)
           | _ \<Rightarrow> None))"

text \<open>The inner loop \<^verbatim>\<open>for (let x = startX; x < endX; x++)\<close> of one row.\<close>

function sumRow :: "RawImage \<Rightarrow> int \<Rightarrow> int \<Rightarrow> int \<Rightarrow> ColorSums \<Rightarrow> ColorSums" where
  "sumRow img py endX px totals =
     (if px < endX then sumRow img py endX (px + 1) (addPixel (readPixel img px py) totals)
      else totals)"
  by pat_completeness auto
termination
  by (relation "measure (\<lambda>(img, py, endX, px, totals). nat (endX - px))") auto

text \<open>The outer loop \<^verbatim>\<open>for (let y = sampleStartY; y <= sampleEndY; y++)\<close>.\<close>

function sumRows :: "RawImage \<Rightarrow> int \<Rightarrow> int \<Rightarrow> int \<Rightarrow> int \<Rightarrow> ColorSums \<Rightarrow> ColorSums" where
  "sumRows img startX endX sampleEndY py totals =
     (if py \<le> sampleEndY
      then sumRows img startX endX sampleEndY (py + 1) (sumRow img py endX startX totals)
      else totals)"
  by pat_completeness auto
termination
  by (relation "measure (\<lambda>(img, startX, endX, sampleEndY, py, totals). nat (sampleEndY + 1 - py))") auto

text \<open>
  \<^verbatim>\<open>extractDominantColor\<close> for the box from \<open>startX\<close> (inclusive) to \<open>endX\<close> (exclusive) and
  the rows from \<open>sampleStartY\<close> to \<open>sampleEndY\<close> (inclusive). It returns \<^verbatim>\<open>null\<close> when the box has no
  non-white pixel. A run that reads outside the buffer would carry \<^verbatim>\<open>NaN\<close> or
  \<^verbatim>\<open>undefined\<close> in the returned record; the model reports such a run as
  \<open>UndefinedRead\<close>.
\<close>

datatype ReadError = UndefinedRead

definition extractDominantColor ::
    "RawImage \<Rightarrow> int \<Rightarrow> int \<Rightarrow> int \<Rightarrow> int \<Rightarrow> ReadError + ColorBox option" where
  "extractDominantColor img startX endX sampleStartY sampleEndY =
     (case sumRows img startX endX sampleEndY sampleStartY (Some (0, 0, 0, 0)) of
        None \<Rightarrow> Inl UndefinedRead
      | Some (totalR, totalG, totalB, pixelCount) \<Rightarrow>
          if pixelCount = 0 then Inr None
          else
            (let avgR = Math_round (real_of_int totalR / real_of_int pixelCount);
                 avgG = Math_round (real_of_int totalG / real_of_int pixelCount);
                 avgB = Math_round (real_of_int totalB / real_of_int pixelCount);
                 hexText = ''#'' @ padStart 2 CHR ''0'' (toString 16 avgR)
                                 @ padStart 2 CHR ''0'' (toString 16 avgG)
                                 @ padStart 2 CHR ''0'' (toString 16 avgB);
                 bottomRightX = min (endX - 1) (img_width img - 1);
                 bottomRightY = min sampleEndY (img_height img - 1)
             in case readPixel img bottomRightX bottomRightY of
                  (Some cr, Some cg, Some cb) \<Rightarrow>
                    Inr (Some \<lparr>ColorBox.rgb = \<lparr>rgb_r = avgR, rgb_g = avgG, rgb_b = avgB\<rparr>,
                               hex = hexText,
                               boundingBox = \<lparr>box_x = startX, box_y = sampleStartY,
                                              box_width = endX - startX,
                                              box_height = sampleEndY - sampleStartY + 1\<rparr>,
                               bottomRightPixel = \<lparr>rgb_r = cr, rgb_g = cg, rgb_b = cb\<rparr>\<rparr>)
                | _ \<Rightarrow> Inl UndefinedRead))"

section \<open>ReferenceColorExtractor: red anchor boxes (reference-color-extractor.ts)\<close>

text \<open>
  \<^verbatim>\<open>isBrightRedPixel\<close> on three reads; a comparison with \<^verbatim>\<open>undefined\<close> is false.
\<close>

definition redRead :: "int option \<times> int option \<times> int option \<Rightarrow> bool" where
  "redRead p =
     (case p of
        (Some cr, Some cg, Some cb) \<Rightarrow> isBrightRedPixel \<lparr>rgb_r = cr, rgb_g = cg, rgb_b = cb\<rparr>
      | _ \<Rightarrow> False)"

text \<open>
  One cell of \<^verbatim>\<open>redPixelMatrix\<close>. \<^verbatim>\<open>findRedAnchorBoxes\<close> fixes \<^verbatim>\<open>channels = 3\<close> and
  guards the reads with \<^verbatim>\<open>pixelIndex + 2 < rawBuffer.length\<close>.
\<close>

definition redPixelAt :: "RawImage \<Rightarrow> int \<Rightarrow> int \<Rightarrow> bool" where
  "redPixelAt img px py =
     (let pixelIndex = (py * img_width img + px) * 3
      in if pixelIndex + 2 < int (length (imageBuffer img))
         then redRead (bufferAt (imageBuffer img) pixelIndex,
                       bufferAt (imageBuffer img) (pixelIndex + 1),
                       bufferAt (imageBuffer img) (pixelIndex + 2))
         else False)"

text \<open>
  \<^verbatim>\<open>Math.floor(width * 0.1)\<close>. In exact arithmetic this is \<open>width div 10\<close>, and the
  floating-point product gives the same integer for every image width.
\<close>

definition leftMarginWidth :: "RawImage \<Rightarrow> int" where
  "leftMarginWidth img = \<lfloor>real_of_int (img_width img) * (1 / 10)\<rfloor>"

definition redPixelMatrix :: "RawImage \<Rightarrow> bool list list" where
  "redPixelMatrix img =
     map (\<lambda>py. map (\<lambda>px. redPixelAt img (int px) (int py)) [0..<nat (leftMarginWidth img)])
       [0..<nat (img_height img)]"

text \<open>\<^verbatim>\<open>indexOf(true)\<close> and \<^verbatim>\<open>lastIndexOf(true)\<close>: \<open>-1\<close> when no cell is true.\<close>

definition indexOfTrue :: "bool list \<Rightarrow> int" where
  "indexOfTrue row = (if True \<in> set row then int (length (takeWhile Not row)) else - 1)"

definition lastIndexOfTrue :: "bool list \<Rightarrow> int" where
  "lastIndexOfTrue row =
     (if True \<in> set row then int (length row) - 1 - int (length (takeWhile Not (rev row))) else - 1)"

text \<open>
  The test \<^verbatim>\<open>redPixelPercentage > 0.1\<close> of a row. With a margin of width 0 the quotient
  is \<^verbatim>\<open>0 / 0\<close>, which is not above \<open>0.1\<close>; division by zero gives 0 here, with the same
  outcome.
\<close>

definition significantRow :: "int \<Rightarrow> bool list \<Rightarrow> bool" where
  "significantRow marginWidth row =
     (let redPixelCount = length (filter (\<lambda>cell. cell) row);
          redPixelPercentage = real redPixelCount / real_of_int marginWidth
      in redPixelPercentage > 1 / 10)"

definition rowWidthOf :: "bool list \<Rightarrow> int" where
  "rowWidthOf row = lastIndexOfTrue row - indexOfTrue row + 1"

text \<open>\<^verbatim>\<open>if (currentBox.height >= 8) redBoxes.push(currentBox)\<close>.\<close>

definition pushIfTall :: "BoundingBox \<Rightarrow> BoundingBox list \<Rightarrow> BoundingBox list" where
  "pushIfTall currentBox redBoxes =
     (if box_height currentBox \<ge> 8 then redBoxes @ [currentBox] else redBoxes)"

text \<open>
  The grouping loop \<^verbatim>\<open>for (let y = 0; y < height; y++)\<close> over the rows of the matrix, with
  its state \<^verbatim>\<open>currentBox\<close> and \<^verbatim>\<open>redBoxes\<close>, and the test after the loop.
\<close>

fun groupRows :: "int \<Rightarrow> bool list list \<Rightarrow> int \<Rightarrow> BoundingBox option \<Rightarrow> BoundingBox list
    \<Rightarrow> BoundingBox list" where
  "groupRows marginWidth [] py currentBox redBoxes =
     (case currentBox of
        Some box \<Rightarrow> pushIfTall box redBoxes
      | None \<Rightarrow> redBoxes)"
| "groupRows marginWidth (row # rest) py currentBox redBoxes =
     (if significantRow marginWidth row then
        (let leftmostRed = indexOfTrue row;
             rightmostRed = lastIndexOfTrue row
         in if leftmostRed \<noteq> - 1 \<and> rightmostRed \<noteq> - 1 then
              (let rowWidth = rightmostRed - leftmostRed + 1
               in if rowWidth \<ge> 5 then
                    (case currentBox of
                       None \<Rightarrow>
                         groupRows marginWidth rest (py + 1)
                           (Some \<lparr>box_x = leftmostRed, box_y = py, box_width = rowWidth, box_height = 1\<rparr>)
                           redBoxes
                     | Some box \<Rightarrow>
                         groupRows marginWidth rest (py + 1)
                           (Some (box\<lparr>box_width := max (box_width box) rowWidth,
                                      box_height := box_height box + 1\<rparr>))
                           redBoxes)
                  else
                    (case currentBox of
                       Some box \<Rightarrow> groupRows marginWidth rest (py + 1) None (pushIfTall box redBoxes)
                     | None \<Rightarrow> groupRows marginWidth rest (py + 1) None redBoxes))
            else groupRows marginWidth rest (py + 1) currentBox redBoxes)
      else
        (case currentBox of
           Some box \<Rightarrow> groupRows marginWidth rest (py + 1) None (pushIfTall box redBoxes)
         | None \<Rightarrow> groupRows marginWidth rest (py + 1) None redBoxes))"

text \<open>
  \<^verbatim>\<open>findRedAnchorBoxes\<close> throws when the metadata has no width or no height (a zero is
  falsy as well).
\<close>

datatype ExtractError = UnableToGetImageDimensions

definition findRedAnchorBoxes :: "RawImage \<Rightarrow> ExtractError + BoundingBox list" where
  "findRedAnchorBoxes img =
     (if img_width img = 0 \<or> img_height img = 0 then Inl UnableToGetImageDimensions
      else Inr (groupRows (leftMarginWidth img) (redPixelMatrix img) 0 None []))"

section \<open>Auxiliary notions\<close>

text \<open>
  A real number that is a finite binary64 value: rounding leaves it unchanged and it lies
  below the overflow threshold.
\<close>

definition isDouble :: "real \<Rightarrow> bool" where
  "isDouble v = (toDouble v = v \<and> \<bar>v\<bar> < 2 ^ 1024)"

text \<open>A color whose channels are bytes, as every color read from an image is.\<close>

definition isByteColor :: "RGB \<Rightarrow> bool" where
  "isByteColor color =
     (0 \<le> rgb_r color \<and> rgb_r color \<le> 255 \<and> 0 \<le> rgb_g color \<and> rgb_g color \<le> 255
      \<and> 0 \<le> rgb_b color \<and> rgb_b color \<le> 255)"

text \<open>
  The Euclidean RGB distance of the specification, in exact arithmetic, against which the
  distance that \<^verbatim>\<open>calculateColorDistance\<close> computes is compared.
\<close>

definition euclideanDistance :: "RGB \<Rightarrow> RGB \<Rightarrow> real" where
  "euclideanDistance color1 color2 =
     sqrt (real_of_int ((rgb_r color1 - rgb_r color2)\<^sup>2 + (rgb_g color1 - rgb_g color2)\<^sup>2
                         + (rgb_b color1 - rgb_b color2)\<^sup>2))"

text \<open>
  The invariant of the color sums, used in the proofs only: every channel sum lies
  between 0 and 255 times the number of pixels added.
\<close>

definition bounded_totals :: "ColorSums \<Rightarrow> bool" where
  "bounded_totals totals =
     (case totals of None \<Rightarrow> True
      | Some (tr, tg, tb, n) \<Rightarrow>
          0 \<le> n \<and> 0 \<le> tr \<and> tr \<le> 255 * n \<and> 0 \<le> tg \<and> tg \<le> 255 * n \<and> 0 \<le> tb \<and> tb \<le> 255 * n)"

text \<open>
  What the grouping loop knows about a box while it grows, and keeps for the boxes it has
  pushed: the box covers rows of the matrix, each with more than 10 percent red cells and
  a span of at least 5; its \<open>x\<close> is the leftmost red cell of its first row; its width is
  the largest span among its rows.
\<close>

definition anchorRows :: "int \<Rightarrow> bool list list \<Rightarrow> BoundingBox \<Rightarrow> bool" where
  "anchorRows marginWidth matrix box =
     (0 \<le> box_y box \<and> 1 \<le> box_height box
      \<and> box_y box + box_height box \<le> int (length matrix)
      \<and> (\<forall>k. box_y box \<le> k \<and> k < box_y box + box_height box \<longrightarrow>
             significantRow marginWidth (matrix ! nat k) \<and> 5 \<le> rowWidthOf (matrix ! nat k)
             \<and> rowWidthOf (matrix ! nat k) \<le> box_width box)
      \<and> (\<exists>k. box_y box \<le> k \<and> k < box_y box + box_height box
             \<and> rowWidthOf (matrix ! nat k) = box_width box)
      \<and> box_x box = indexOfTrue (matrix ! nat (box_y box)))"

section \<open>Concrete inputs\<close>

text \<open>Inputs at which the theorems below are instantiated and the model is evaluated.\<close>

definition ex_black :: ColorBox where
  "ex_black = \<lparr>ColorBox.rgb = \<lparr>rgb_r = 0, rgb_g = 0, rgb_b = 0\<rparr>, hex = ''#000000'',
     boundingBox = \<lparr>box_x = 0, box_y = 0, box_width = 20, box_height = 20\<rparr>,
     bottomRightPixel = \<lparr>rgb_r = 0, rgb_g = 0, rgb_b = 0\<rparr>\<rparr>"

definition ex_reference :: "int \<Rightarrow> int \<Rightarrow> int \<Rightarrow> ReferenceColor" where
  "ex_reference cr cg cb = \<lparr>ReferenceColor.colorCode = ''B60002'', colorName = ''New Black'',
     pantoneColor = ''19-0303 TCX'', rgb = \<lparr>rgb_r = cr, rgb_g = cg, rgb_b = cb\<rparr>, hex = ''#000000'',
     boundingBox = \<lparr>box_x = 15, box_y = 0, box_width = 20, box_height = 20\<rparr>\<rparr>"


text \<open>
  A matcher with the default distance 150, one with the distance \<open>2291 / 1024\<close> (about
  2.2373), and one with the distance 160 and the one-entry palette \<open>(83, 0, 0)\<close>.
\<close>

definition ex_matcher :: "ReferenceColor list \<Rightarrow> ColorMatcher" where
  "ex_matcher refs = new_ColorMatcher refs None"

definition ex_tight_matcher :: ColorMatcher where
  "ex_tight_matcher = new_ColorMatcher [ex_reference 1 2 0] (Some (2291 / 1024))"

definition ex_wide_matcher :: ColorMatcher where
  "ex_wide_matcher = new_ColorMatcher [ex_reference 83 0 0] (Some 160)"

text \<open>A bright pixel whose blue channel is below the threshold.\<close>

definition ex_pale_yellow :: RGB where
  "ex_pale_yellow = \<lparr>rgb_r = 255, rgb_g = 255, rgb_b = 215\<rparr>"

text \<open>
  An entry with the code \<^verbatim>\<open>C1234\<close> and a descriptive name that stands exactly at the
  table position of Navy.
\<close>

definition ex_entry :: ReferenceColor where
  "ex_entry = \<lparr>ReferenceColor.colorCode = ''C1234'', colorName = ''Deep Ocean Blue'',
     pantoneColor = ''19-4052 TCX'', rgb = \<lparr>rgb_r = 15, rgb_g = 76, rgb_b = 129\<rparr>, hex = ''#0F4C81'',
     boundingBox = \<lparr>box_x = 633, box_y = 40, box_width = 50, box_height = 30\<rparr>\<rparr>"

text \<open>An entry whose text was read well, at the same position.\<close>

definition ex_navy :: ReferenceColor where
  "ex_navy = \<lparr>ReferenceColor.colorCode = ''B20111'', colorName = ''Navy Blue'',
     pantoneColor = ''19-3923 TCX'', rgb = \<lparr>rgb_r = 40, rgb_g = 44, rgb_b = 72\<rparr>, hex = ''#282C48'',
     boundingBox = \<lparr>box_x = 633, box_y = 40, box_width = 50, box_height = 30\<rparr>\<rparr>"

text \<open>Recognised texts: the specification's example, and a short first line over a lone pipe.\<close>

definition ex_text :: string where
  "ex_text = ''123456 SAMPLE'' @ [CHR 0x0A] @ ''My Style Name''"

definition ex_short_text :: string where
  "ex_short_text = ''ABC'' @ [CHR 0x0A] @ ''|''"

text \<open>
  A synthetic scan column: an image one pixel wide with three channels and \<open>h\<close> rows,
  black in the rows from \<open>a\<close> to \<open>b\<close> and white elsewhere.
\<close>

definition ex_column :: "nat \<Rightarrow> nat \<Rightarrow> nat \<Rightarrow> RawImage" where
  "ex_column h a b =
     \<lparr>imageBuffer = concat (map (\<lambda>k. if a \<le> k \<and> k \<le> b then [0, 0, 0] else [255, 255, 255]) [0..<h]),
      img_width = 1, img_height = int h, img_channels = 3\<rparr>"

text \<open>An image of one amber pixel.\<close>

definition ex_amber_pixel :: RawImage where
  "ex_amber_pixel = \<lparr>imageBuffer = [255, 171, 0], img_width = 1, img_height = 1, img_channels = 3\<rparr>"

text \<open>
  An image 60 pixels wide and 8 rows high, so that the scanned margin is 6 pixels wide.
  Row 0 is red in the columns 0 to 4, each of the rows 1 to 7 in the columns 1 to 5; every
  other pixel is white.
\<close>

definition ex_anchor_image :: RawImage where
  "ex_anchor_image =
     \<lparr>imageBuffer =
        concat (map (\<lambda>i. if (i div 60 = 0 \<and> i mod 60 < 5) \<or> (0 < i div 60 \<and> 1 \<le> i mod 60 \<and> i mod 60 \<le> 5)
                         then [255, 0, 0] else [255, 255, 255])
                  [0..<480]),
      img_width = 60, img_height = 8, img_channels = 3\<rparr>"

section \<open>Properties of the rounding to binary64\<close>

subsection \<open>Rounding error, monotonicity and exact integers\<close>

lemma roundToEven_close: "\<bar>real_of_int (roundToEven v) - v\<bar> \<le> 1 / 2"
  unfolding roundToEven_def Let_def by (auto; linarith)

lemma roundToEven_unique: "\<bar>v - real_of_int m\<bar> < 1 / 2 \<Longrightarrow> roundToEven v = m"
  using roundToEven_close[of v] by linarith

lemma roundToEven_of_int: "roundToEven (real_of_int k) = k"
  by (rule roundToEven_unique) simp

lemma roundToEven_mono:
  assumes "v \<le> w"
  shows "roundToEven v \<le> roundToEven w"
proof (cases "\<lfloor>v\<rfloor> = \<lfloor>w\<rfloor>")
  case True
  with assms show ?thesis
    unfolding roundToEven_def Let_def by (auto; linarith)
next
  case False
  from assms have "\<lfloor>v\<rfloor> \<le> \<lfloor>w\<rfloor>" by (rule floor_mono)
  with False have "\<lfloor>v\<rfloor> + 1 \<le> \<lfloor>w\<rfloor>" by simp
  moreover have "roundToEven v \<le> \<lfloor>v\<rfloor> + 1" "\<lfloor>w\<rfloor> \<le> roundToEven w"
    unfolding roundToEven_def Let_def by auto
  ultimately show ?thesis by linarith
qed

lemma unitInLastPlace_pos: "0 < unitInLastPlace v"
  by (simp add: unitInLastPlace_def)

lemma toDouble_close: "\<bar>toDouble v - v\<bar> \<le> unitInLastPlace v / 2"
proof (cases "v = 0")
  case True
  then show ?thesis using unitInLastPlace_pos[of v] by (simp add: toDouble_def)
next
  case False
  let ?u = "unitInLastPlace v"
  have u: "0 < ?u" by (rule unitInLastPlace_pos)
  have "\<bar>real_of_int (roundToEven (v / ?u)) - v / ?u\<bar> \<le> 1 / 2" by (rule roundToEven_close)
  then have "\<bar>real_of_int (roundToEven (v / ?u)) - v / ?u\<bar> * ?u \<le> 1 / 2 * ?u"
    using u by (simp only: mult_le_cancel_right_pos)
  moreover have "\<bar>real_of_int (roundToEven (v / ?u)) - v / ?u\<bar> * ?u
      = \<bar>real_of_int (roundToEven (v / ?u)) * ?u - v\<bar>"
  proof -
    have "\<bar>real_of_int (roundToEven (v / ?u)) - v / ?u\<bar> * ?u
        = \<bar>(real_of_int (roundToEven (v / ?u)) - v / ?u) * ?u\<bar>"
      using u by (simp add: abs_mult)
    also have "(real_of_int (roundToEven (v / ?u)) - v / ?u) * ?u
        = real_of_int (roundToEven (v / ?u)) * ?u - v"
      using u by (simp add: left_diff_distrib)
    finally show ?thesis .
  qed
  ultimately show ?thesis using False by (simp add: toDouble_def)
qed

lemma binaryExponent_upper:
  assumes "v \<noteq> 0"
  shows "\<bar>v\<bar> < 2 powr real_of_int (binaryExponent v + 1)"
proof -
  have "log 2 \<bar>v\<bar> < real_of_int (\<lfloor>log 2 \<bar>v\<bar>\<rfloor> + 1)" by linarith
  also have "\<dots> \<le> real_of_int (binaryExponent v + 1)"
    by (simp add: binaryExponent_def)
  finally have "log 2 \<bar>v\<bar> < real_of_int (binaryExponent v + 1)" .
  then show ?thesis using assms by (simp add: log_less_iff)
qed

lemma binaryExponent_lower:
  assumes "v \<noteq> 0" and "- 1022 < binaryExponent v"
  shows "2 powr real_of_int (binaryExponent v) \<le> \<bar>v\<bar>"
proof -
  from assms(2) have "binaryExponent v = \<lfloor>log 2 \<bar>v\<bar>\<rfloor>"
    by (simp add: binaryExponent_def max_def split: if_splits)
  then have "real_of_int (binaryExponent v) \<le> log 2 \<bar>v\<bar>" by simp
  then show ?thesis using assms(1) by (simp add: le_log_iff)
qed

lemma binaryExponent_least: "- 1022 \<le> binaryExponent v"
  by (simp add: binaryExponent_def)

lemma binaryExponent_below:
  assumes "v \<noteq> 0" and "\<bar>v\<bar> < 2 powr real_of_int (k + 1)" and "- 1022 \<le> k"
  shows "binaryExponent v \<le> k"
proof -
  from assms(1,2) have "log 2 \<bar>v\<bar> < real_of_int (k + 1)" by (simp add: log_less_iff)
  then have "\<lfloor>log 2 \<bar>v\<bar>\<rfloor> < k + 1" by (simp only: floor_less_iff)
  with assms(3) show ?thesis by (simp add: binaryExponent_def)
qed

lemma binaryExponent_eq:
  assumes "2 powr real_of_int k \<le> \<bar>v\<bar>" and "\<bar>v\<bar> < 2 powr real_of_int (k + 1)" and "- 1022 \<le> k"
  shows "binaryExponent v = k"
proof -
  have "0 < (2::real) powr real_of_int k" by simp
  with assms(1) have pos: "0 < \<bar>v\<bar>" by linarith
  then have nz: "v \<noteq> 0" by auto
  from assms(1) pos have "real_of_int k \<le> log 2 \<bar>v\<bar>" by (simp add: le_log_iff)
  moreover from assms(2) pos have "log 2 \<bar>v\<bar> < real_of_int k + 1" by (simp add: log_less_iff)
  ultimately have "\<lfloor>log 2 \<bar>v\<bar>\<rfloor> = k" by (simp add: floor_eq_iff)
  with assms(3) show ?thesis by (simp add: binaryExponent_def)
qed

lemma toDouble_eval:
  assumes "2 powr real_of_int k \<le> \<bar>v\<bar>" and "\<bar>v\<bar> < 2 powr real_of_int (k + 1)" and "- 1022 \<le> k"
    and "u = 2 powr real_of_int (k - 52)" and "\<bar>v / u - real_of_int m\<bar> < 1 / 2"
  shows "toDouble v = real_of_int m * u"
proof -
  have "0 < (2::real) powr real_of_int k" by simp
  with assms(1) have pos: "0 < \<bar>v\<bar>" by linarith
  then have nz: "v \<noteq> 0" by auto
  have "unitInLastPlace v = u"
    by (simp add: unitInLastPlace_def binaryExponent_eq[OF assms(1-3)] assms(4))
  with nz roundToEven_unique[OF assms(5)] show ?thesis by (simp add: toDouble_def)
qed

lemma toDouble_close16:
  assumes "\<bar>v\<bar> < 65536"
  shows "\<bar>toDouble v - v\<bar> \<le> 1 / 2 ^ 38"
proof (cases "v = 0")
  case True
  then show ?thesis by (simp add: toDouble_def)
next
  case False
  have "2 powr real_of_int (15 + 1) = (65536::real)" by simp
  with assms have "\<bar>v\<bar> < 2 powr real_of_int (15 + 1)" by (simp only:)
  from binaryExponent_below[OF False this] have "binaryExponent v \<le> 15" by simp
  then have "unitInLastPlace v \<le> 2 powr real_of_int (- 37)"
    unfolding unitInLastPlace_def by (intro powr_mono) simp_all
  also have "\<dots> = 1 / 2 ^ 37" by (simp add: powr_minus_divide)
  finally have "unitInLastPlace v / 2 \<le> 1 / 2 ^ 38" by simp
  with toDouble_close[of v] show ?thesis by linarith
qed

lemma toDouble_nonneg: "0 \<le> v \<Longrightarrow> 0 \<le> toDouble v"
proof -
  assume v: "0 \<le> v"
  have "0 \<le> v / unitInLastPlace v" using v unitInLastPlace_pos[of v] by simp
  from roundToEven_mono[OF this] have "0 \<le> roundToEven (v / unitInLastPlace v)"
    using roundToEven_of_int[of 0] by simp
  then show ?thesis using unitInLastPlace_pos[of v] by (simp add: toDouble_def)
qed

lemma toDouble_mono:
  assumes "0 \<le> v" and "v \<le> w"
  shows "toDouble v \<le> toDouble w"
proof (cases "v = 0")
  case True
  with assms toDouble_nonneg[of w] show ?thesis by (simp add: toDouble_def)
next
  case False
  with assms have v: "0 < v" and w: "0 < w" by simp_all
  let ?ev = "binaryExponent v" and ?ew = "binaryExponent w"
  let ?uv = "unitInLastPlace v" and ?uw = "unitInLastPlace w"
  have tv: "toDouble v = real_of_int (roundToEven (v / ?uv)) * ?uv"
    and tw: "toDouble w = real_of_int (roundToEven (w / ?uw)) * ?uw"
    using v w by (simp_all add: toDouble_def)
  have "log 2 \<bar>v\<bar> \<le> log 2 \<bar>w\<bar>" using v w assms(2) by simp
  then have "\<lfloor>log 2 \<bar>v\<bar>\<rfloor> \<le> \<lfloor>log 2 \<bar>w\<bar>\<rfloor>" by (rule floor_mono)
  then have le: "?ev \<le> ?ew" by (simp add: binaryExponent_def)
  show ?thesis
  proof (cases "?ev = ?ew")
    case True
    then have u: "?uv = ?uw" by (simp add: unitInLastPlace_def)
    have "v / ?uw \<le> w / ?uw" using assms(2) unitInLastPlace_pos[of w] by (simp add: divide_right_mono)
    from roundToEven_mono[OF this] show ?thesis
      unfolding tv tw u using unitInLastPlace_pos[of w] by simp
  next
    case False
    with le have lt: "?ev + 1 \<le> ?ew" by simp
    with binaryExponent_least[of v] have "- 1022 < ?ew" by linarith
    from binaryExponent_lower[OF _ this] w have low: "2 powr real_of_int ?ew \<le> w" by simp
    from binaryExponent_upper[of v] v have up: "v < 2 powr real_of_int (?ev + 1)" by simp
    have int53: "real_of_int (2 ^ 53) = 2 powr 53" and int52: "real_of_int (2 ^ 52) = 2 powr 52"
      by simp_all
    have "v / ?uv \<le> 2 powr real_of_int (?ev + 1) / ?uv"
      using up unitInLastPlace_pos[of v] by (simp add: divide_right_mono)
    also have "\<dots> = 2 powr (real_of_int (?ev + 1) - real_of_int (?ev - 52))"
      unfolding unitInLastPlace_def by (simp only: powr_diff)
    also have "real_of_int (?ev + 1) - real_of_int (?ev - 52) = 53" by simp
    finally have "v / ?uv \<le> real_of_int (2 ^ 53)" by (simp only: int53)
    from roundToEven_mono[OF this] have "roundToEven (v / ?uv) \<le> 2 ^ 53"
      by (simp only: roundToEven_of_int)
    then have "real_of_int (roundToEven (v / ?uv)) \<le> real_of_int (2 ^ 53)"
      by (simp only: of_int_le_iff)
    then have "real_of_int (roundToEven (v / ?uv)) * ?uv \<le> real_of_int (2 ^ 53) * ?uv"
      using unitInLastPlace_pos[of v] by (simp only: mult_le_cancel_right_pos)
    also have "real_of_int (2 ^ 53) * ?uv = 2 powr (53 + real_of_int (?ev - 52))"
      unfolding unitInLastPlace_def int53 by (simp only: powr_add)
    also have "53 + real_of_int (?ev - 52) = real_of_int (?ev + 1)" by simp
    also have "2 powr real_of_int (?ev + 1) \<le> 2 powr real_of_int ?ew"
      using lt by (intro powr_mono) simp_all
    finally have a: "toDouble v \<le> 2 powr real_of_int ?ew" by (simp only: tv)
    have "real_of_int (2 ^ 52) = 2 powr (real_of_int ?ew - real_of_int (?ew - 52))"
      by (simp only: int52) simp
    also have "\<dots> = 2 powr real_of_int ?ew / ?uw"
      unfolding unitInLastPlace_def by (simp only: powr_diff)
    also have "\<dots> \<le> w / ?uw"
      using low unitInLastPlace_pos[of w] by (simp add: divide_right_mono)
    finally have "real_of_int (2 ^ 52) \<le> w / ?uw" .
    from roundToEven_mono[OF this] have "2 ^ 52 \<le> roundToEven (w / ?uw)"
      by (simp only: roundToEven_of_int)
    then have "real_of_int (2 ^ 52) \<le> real_of_int (roundToEven (w / ?uw))"
      by (simp only: of_int_le_iff)
    then have "real_of_int (2 ^ 52) * ?uw \<le> real_of_int (roundToEven (w / ?uw)) * ?uw"
      using unitInLastPlace_pos[of w] by (simp only: mult_le_cancel_right_pos)
    moreover have "real_of_int (2 ^ 52) * ?uw = 2 powr (52 + real_of_int (?ew - 52))"
      unfolding unitInLastPlace_def int52 by (simp only: powr_add)
    moreover have "52 + real_of_int (?ew - 52) = real_of_int ?ew" by simp
    ultimately have "2 powr real_of_int ?ew \<le> toDouble w" by (simp only: tw)
    with a show ?thesis by linarith
  qed
qed

lemma toDouble_of_int:
  assumes "0 \<le> k" and "k < 2 ^ 53"
  shows "toDouble (real_of_int k) = real_of_int k"
proof (cases "k = 0")
  case True
  then show ?thesis by (simp add: toDouble_def)
next
  case False
  with assms(1) have k: "1 \<le> k" by simp
  let ?v = "real_of_int k"
  let ?e = "binaryExponent ?v"
  have nz: "?v \<noteq> 0" using k by simp
  have "real_of_int k < real_of_int (2 ^ 53)" using assms(2) by (simp only: of_int_less_iff)
  also have "real_of_int (2 ^ 53) = 2 powr real_of_int (52 + 1)" by simp
  finally have "\<bar>?v\<bar> < 2 powr real_of_int (52 + 1)" using k by simp
  from binaryExponent_below[OF nz this] have e52: "?e \<le> 52" by simp
  have "0 \<le> log 2 \<bar>?v\<bar>" using k by simp
  then have "0 \<le> \<lfloor>log 2 \<bar>?v\<bar>\<rfloor>" by simp
  then have e0: "0 \<le> ?e" by (simp add: binaryExponent_def)
  define n where "n = nat (52 - ?e)"
  have "real_of_int (?e - 52) = - real n" using e52 by (simp add: n_def)
  then have u: "unitInLastPlace ?v = 1 / 2 ^ n"
    unfolding unitInLastPlace_def by (simp add: powr_minus_divide powr_realpow)
  have "?v / unitInLastPlace ?v = real_of_int (k * 2 ^ n)" by (simp add: u)
  then have "roundToEven (?v / unitInLastPlace ?v) = k * 2 ^ n"
    by (simp only: roundToEven_of_int)
  then show ?thesis using nz by (simp add: toDouble_def u)
qed

subsection \<open>Two decimals, the confidence and the root\<close>

lemma toDouble_numeral_byte:
  "toDouble 0 = 0" "toDouble 1 = 1" "toDouble 100 = 100" "toDouble 442 = 442"
  "toDouble 10000 = 10000" "toDouble 44200 = 44200"
  using toDouble_of_int[of 1] toDouble_of_int[of 100] toDouble_of_int[of 442]
    toDouble_of_int[of 10000] toDouble_of_int[of 44200]
  by (simp_all add: toDouble_def)

text \<open>Rounding to two decimals, as \<^verbatim>\<open>Math.round(v * 100) / 100\<close> computes it.\<close>

lemma round2_close:
  assumes "0 \<le> v" and "v \<le> 442"
  shows "\<bar>toDouble (real_of_int (Math_round (toDouble (v * 100))) / 100) - v\<bar> \<le> 1 / 200 + 3 / 2 ^ 38"
    and "0 \<le> toDouble (real_of_int (Math_round (toDouble (v * 100))) / 100)"
proof -
  let ?t = "toDouble (v * 100)"
  let ?k = "Math_round ?t"
  have range: "0 \<le> v * 100" "v * 100 \<le> 44200" using assms by simp_all
  then have "\<bar>v * 100\<bar> < 65536" by simp
  from toDouble_close16[OF this] have t: "\<bar>?t - v * 100\<bar> \<le> 1 / 2 ^ 38" .
  have t0: "0 \<le> ?t" using range(1) by (rule toDouble_nonneg)
  have "?t \<le> toDouble 44200" using range by (rule toDouble_mono)
  then have t1: "?t \<le> 44200" by (simp only: toDouble_numeral_byte)
  have k: "\<bar>real_of_int ?k - ?t\<bar> \<le> 1 / 2" unfolding Math_round_def by linarith
  have k0: "0 \<le> ?k" unfolding Math_round_def using t0 by simp
  have k1: "?k \<le> 44200" unfolding Math_round_def using t1 by (simp add: floor_le_iff)
  have "0 \<le> real_of_int ?k / 100" using k0 by simp
  then show "0 \<le> toDouble (real_of_int ?k / 100)" by (rule toDouble_nonneg)
  have "real_of_int ?k \<le> 44200" using k1 by simp
  then have "\<bar>real_of_int ?k / 100\<bar> < 65536" using k0 by simp
  from toDouble_close16[OF this]
  have "\<bar>toDouble (real_of_int ?k / 100) - real_of_int ?k / 100\<bar> \<le> 1 / 2 ^ 38" .
  with t k have "\<bar>toDouble (real_of_int ?k / 100) - v\<bar> \<le> 1 / 200 + 3 * (1 / 2 ^ 38)"
    by linarith
  then show "\<bar>toDouble (real_of_int ?k / 100) - v\<bar> \<le> 1 / 200 + 3 / 2 ^ 38"
    by simp
qed

lemma round2_le:
  assumes "0 \<le> v" and "v \<le> B" and "B * 100 = real_of_int j" and "j < 2 ^ 53" and "toDouble B = B"
  shows "toDouble (real_of_int (Math_round (toDouble (v * 100))) / 100) \<le> B"
proof -
  let ?t = "toDouble (v * 100)"
  let ?k = "Math_round ?t"
  have "0 \<le> v * 100" "v * 100 \<le> B * 100" using assms(1,2) by simp_all
  then have t0: "0 \<le> ?t" and "?t \<le> toDouble (B * 100)"
    by (simp_all add: toDouble_nonneg toDouble_mono)
  moreover have "0 \<le> j"
  proof -
    have "0 \<le> B * 100" using assms(1,2) by simp
    then have "0 \<le> real_of_int j" by (simp only: assms(3))
    then show ?thesis by simp
  qed
  ultimately have "?t \<le> real_of_int j"
    using toDouble_of_int[OF _ assms(4)] by (simp add: assms(3))
  then have "?k \<le> j" unfolding Math_round_def by (simp add: floor_le_iff)
  then have "real_of_int ?k \<le> B * 100" by (simp add: assms(3))
  then have le: "real_of_int ?k / 100 \<le> B" by simp
  have "0 \<le> ?k" unfolding Math_round_def using t0 by simp
  then have "0 \<le> real_of_int ?k / 100" by simp
  from toDouble_mono[OF this le] show ?thesis by (simp only: assms(5))
qed

text \<open>The confidence before it is rounded to two decimals.\<close>

lemma confidence_close:
  assumes "0 \<le> d" and "d \<le> M" and "0 < M"
  shows "0 \<le> toDouble (100 - toDouble (toDouble (d / M) * 100))"
    and "toDouble (100 - toDouble (toDouble (d / M) * 100)) \<le> 100"
    and "\<bar>toDouble (100 - toDouble (toDouble (d / M) * 100)) - (100 - 100 * (d / M))\<bar> \<le> 102 / 2 ^ 38"
proof -
  let ?q = "toDouble (d / M)"
  let ?p = "toDouble (?q * 100)"
  let ?c = "toDouble (100 - ?p)"
  have r: "0 \<le> d / M" "d / M \<le> 1" using assms by simp_all
  then have q0: "0 \<le> ?q" and "?q \<le> toDouble 1"
    by (simp_all add: toDouble_nonneg toDouble_mono)
  then have q1: "?q \<le> 1" by (simp only: toDouble_numeral_byte)
  have "\<bar>d / M\<bar> < 65536" using r by simp
  from toDouble_close16[OF this] have q: "\<bar>?q - d / M\<bar> \<le> 1 / 2 ^ 38" .
  have r2: "0 \<le> ?q * 100" "?q * 100 \<le> 100" using q0 q1 by simp_all
  then have p0: "0 \<le> ?p" and "?p \<le> toDouble 100"
    by (simp_all add: toDouble_nonneg toDouble_mono)
  then have p1: "?p \<le> 100" by (simp only: toDouble_numeral_byte)
  have "\<bar>?q * 100\<bar> < 65536" using r2 by simp
  from toDouble_close16[OF this] have p: "\<bar>?p - ?q * 100\<bar> \<le> 1 / 2 ^ 38" .
  have r3: "0 \<le> 100 - ?p" "100 - ?p \<le> 100" using p0 p1 by simp_all
  then show c0: "0 \<le> ?c" by (simp add: toDouble_nonneg)
  from r3 have "?c \<le> toDouble 100" by (simp add: toDouble_mono)
  then show "?c \<le> 100" by (simp only: toDouble_numeral_byte)
  have "\<bar>100 - ?p\<bar> < 65536" using r3 by simp
  from toDouble_close16[OF this] have c: "\<bar>?c - (100 - ?p)\<bar> \<le> 1 / 2 ^ 38" .
  from q p c have "\<bar>?c - (100 - 100 * (d / M))\<bar> \<le> 102 * (1 / 2 ^ 38)"
    by linarith
  then show "\<bar>?c - (100 - 100 * (d / M))\<bar> \<le> 102 / 2 ^ 38"
    by simp
qed

text \<open>The computed root of a sum of squares of byte differences.\<close>

lemma sqrt_double_close:
  assumes "0 \<le> n" and "n \<le> 195075"
  shows "\<bar>toDouble (sqrt (real_of_int n)) - sqrt (real_of_int n)\<bar> \<le> 1 / 2 ^ 38"
    and "0 \<le> toDouble (sqrt (real_of_int n))"
    and "toDouble (sqrt (real_of_int n)) \<le> 442"
    and "sqrt (real_of_int n) \<le> 442"
proof -
  let ?s = "sqrt (real_of_int n)"
  have s0: "0 \<le> ?s" using assms(1) by simp
  have "real_of_int n \<le> 442\<^sup>2" using assms(2) by simp
  then have "?s \<le> sqrt (442\<^sup>2)" by (simp only: real_sqrt_le_iff)
  then show s1: "?s \<le> 442" by simp
  then have "\<bar>?s\<bar> < 65536" using s0 by simp
  from toDouble_close16[OF this] show "\<bar>toDouble ?s - ?s\<bar> \<le> 1 / 2 ^ 38" .
  show "0 \<le> toDouble ?s" using s0 by (rule toDouble_nonneg)
  from toDouble_mono[OF s0 s1] show "toDouble ?s \<le> 442" by (simp only: toDouble_numeral_byte)
qed

lemma sqrt_double_one:
  assumes "1 \<le> n"
  shows "1 \<le> toDouble (sqrt (real_of_int n))"
proof -
  have "1 \<le> sqrt (real_of_int n)" using assms by simp
  from toDouble_mono[OF _ this] show ?thesis by (simp add: toDouble_numeral_byte)
qed

lemma sqrt_double_order:
  assumes "0 \<le> a" and "a \<le> 195075" and "0 \<le> b" and "b \<le> 195075"
  shows "(toDouble (sqrt (real_of_int a)) \<le> toDouble (sqrt (real_of_int b))) = (a \<le> b)"
proof
  assume "a \<le> b"
  then have "sqrt (real_of_int a) \<le> sqrt (real_of_int b)" by simp
  moreover have "0 \<le> sqrt (real_of_int a)" using assms(1) by simp
  ultimately show "toDouble (sqrt (real_of_int a)) \<le> toDouble (sqrt (real_of_int b))"
    by (rule toDouble_mono[rotated])
next
  assume le: "toDouble (sqrt (real_of_int a)) \<le> toDouble (sqrt (real_of_int b))"
  show "a \<le> b"
  proof (rule ccontr)
    assume "\<not> a \<le> b"
    then have ba: "b + 1 \<le> a" by simp
    let ?sa = "sqrt (real_of_int a)" and ?sb = "sqrt (real_of_int b)"
    have sa: "0 \<le> ?sa" "?sa \<le> 442" and sb: "0 \<le> ?sb" "?sb \<le> 442"
      using sqrt_double_close(4)[OF assms(1,2)] sqrt_double_close(4)[OF assms(3,4)] assms(1,3) by simp_all
    have "(?sa - ?sb) * (?sa + ?sb) = ?sa\<^sup>2 - ?sb\<^sup>2" by (simp add: algebra_simps power2_eq_square)
    also have "\<dots> = real_of_int a - real_of_int b" using assms(1,3) by simp
    also have "\<dots> \<ge> 1" using ba by linarith
    finally have prod: "1 \<le> (?sa - ?sb) * (?sa + ?sb)" .
    have pos: "0 < ?sa" using ba assms(3) by simp
    have "(?sa - ?sb) * (?sa + ?sb) \<le> (?sa - ?sb) * 884"
    proof (rule mult_left_mono)
      show "?sa + ?sb \<le> 884" using sa sb by simp
      have "?sb \<le> ?sa" using ba by simp
      then show "0 \<le> ?sa - ?sb" by simp
    qed
    with prod have gap: "1 / 884 \<le> ?sa - ?sb" by simp
    have "\<bar>toDouble ?sa - ?sa\<bar> \<le> 1 / 2 ^ 38" "\<bar>toDouble ?sb - ?sb\<bar> \<le> 1 / 2 ^ 38"
      using sqrt_double_close(1)[OF assms(1,2)] sqrt_double_close(1)[OF assms(3,4)] by simp_all
    moreover have "2 * (1 / 2 ^ 38) < (1::real) / 884" by simp
    ultimately show False using gap le by linarith
  qed
qed

section \<open>Properties of the color matcher\<close>

subsection \<open>The nearest-reference loop\<close>

lemma closestLoop_spec:
  "closestLoop sw refs best = Some (ref, d) \<Longrightarrow>
     (best = Some (ref, d) \<and> (\<forall>r\<in>set refs. d \<le> distanceTo sw r))
   \<or> (\<exists>pre post. refs = pre @ ref # post \<and> d = distanceTo sw ref
        \<and> (\<forall>r\<in>set pre. distanceTo sw ref < distanceTo sw r) \<and> (\<forall>r\<in>set post. distanceTo sw ref \<le> distanceTo sw r)
        \<and> (\<forall>cr md. best = Some (cr, md) \<longrightarrow> distanceTo sw ref < md))"
proof (induction refs arbitrary: best)
  case Nil
  then show ?case by simp
next
  case (Cons a refs)
  let ?da = "distanceTo sw a"
  show ?case
  proof (cases best)
    case None
    with Cons.prems have run: "closestLoop sw refs (Some (a, ?da)) = Some (ref, d)"
      by (simp add: Let_def)
    from Cons.IH[OF run] show ?thesis
    proof
      assume "Some (a, ?da) = Some (ref, d) \<and> (\<forall>r\<in>set refs. d \<le> distanceTo sw r)"
      with None show ?thesis
        by (intro disjI2 exI[of _ "[]"] exI[of _ refs]) auto
    next
      assume "\<exists>pre post. refs = pre @ ref # post \<and> d = distanceTo sw ref
        \<and> (\<forall>r\<in>set pre. distanceTo sw ref < distanceTo sw r) \<and> (\<forall>r\<in>set post. distanceTo sw ref \<le> distanceTo sw r)
        \<and> (\<forall>cr md. Some (a, ?da) = Some (cr, md) \<longrightarrow> distanceTo sw ref < md)"
      then obtain pre post where p: "refs = pre @ ref # post" "d = distanceTo sw ref"
        "\<forall>r\<in>set pre. distanceTo sw ref < distanceTo sw r" "\<forall>r\<in>set post. distanceTo sw ref \<le> distanceTo sw r" "distanceTo sw ref < ?da"
        by auto
      with None show ?thesis
        by (intro disjI2 exI[of _ "a # pre"] exI[of _ post]) auto
    qed
  next
    case (Some p)
    obtain cr md where p: "p = (cr, md)" by (cases p)
    show ?thesis
    proof (cases "?da < md")
      case True
      with Cons.prems Some p have run: "closestLoop sw refs (Some (a, ?da)) = Some (ref, d)"
        by (simp add: Let_def)
      from Cons.IH[OF run] show ?thesis
      proof
        assume "Some (a, ?da) = Some (ref, d) \<and> (\<forall>r\<in>set refs. d \<le> distanceTo sw r)"
        with Some p True show ?thesis
          by (intro disjI2 exI[of _ "[]"] exI[of _ refs]) auto
      next
        assume "\<exists>pre post. refs = pre @ ref # post \<and> d = distanceTo sw ref
          \<and> (\<forall>r\<in>set pre. distanceTo sw ref < distanceTo sw r) \<and> (\<forall>r\<in>set post. distanceTo sw ref \<le> distanceTo sw r)
          \<and> (\<forall>cr md. Some (a, ?da) = Some (cr, md) \<longrightarrow> distanceTo sw ref < md)"
        then obtain pre post where q: "refs = pre @ ref # post" "d = distanceTo sw ref"
          "\<forall>r\<in>set pre. distanceTo sw ref < distanceTo sw r" "\<forall>r\<in>set post. distanceTo sw ref \<le> distanceTo sw r" "distanceTo sw ref < ?da"
          by auto
        with Some p True show ?thesis
          by (intro disjI2 exI[of _ "a # pre"] exI[of _ post]) auto
      qed
    next
      case False
      with Cons.prems Some p have run: "closestLoop sw refs (Some (cr, md)) = Some (ref, d)"
        by (simp add: Let_def)
      from Cons.IH[OF run] show ?thesis
      proof
        assume "Some (cr, md) = Some (ref, d) \<and> (\<forall>r\<in>set refs. d \<le> distanceTo sw r)"
        with False Some p show ?thesis by auto
      next
        assume "\<exists>pre post. refs = pre @ ref # post \<and> d = distanceTo sw ref
          \<and> (\<forall>r\<in>set pre. distanceTo sw ref < distanceTo sw r) \<and> (\<forall>r\<in>set post. distanceTo sw ref \<le> distanceTo sw r)
          \<and> (\<forall>cr' md'. Some (cr, md) = Some (cr', md') \<longrightarrow> distanceTo sw ref < md')"
        then obtain pre post where q: "refs = pre @ ref # post" "d = distanceTo sw ref"
          "\<forall>r\<in>set pre. distanceTo sw ref < distanceTo sw r" "\<forall>r\<in>set post. distanceTo sw ref \<le> distanceTo sw r" "distanceTo sw ref < md"
          by auto
        with Some p False show ?thesis
          by (intro disjI2 exI[of _ "a # pre"] exI[of _ post]) auto
      qed
    qed
  qed
qed

lemma closestLoop_not_None:
  "refs \<noteq> [] \<or> best \<noteq> None \<Longrightarrow> closestLoop sw refs best \<noteq> None"
  by (induction refs arbitrary: best) (auto simp: Let_def split: option.splits)


lemma findClosest_Some:
  assumes "findClosestReferenceColor this color = Some m"
  shows "\<exists>pre post. ColorMatcher.referenceColors this = pre @ reference m # post
      \<and> ClosestMatch.distance m = distanceTo color (reference m)
      \<and> (\<forall>r\<in>set pre. distanceTo color (reference m) < distanceTo color r)
      \<and> (\<forall>r\<in>set post. distanceTo color (reference m) \<le> distanceTo color r)
      \<and> ClosestMatch.distance m \<le> maxDistance this
      \<and> ClosestMatch.confidence m =
          (if maxDistance this = 0 then NaN
           else Num (toDouble (real_of_int (Math_round (toDouble
                  (max 0 (min 100 (toDouble (100 - toDouble
                     (toDouble (ClosestMatch.distance m / maxDistance this) * 100)))) * 100))) / 100)))"
proof -
  let ?refs = "ColorMatcher.referenceColors this"
  from assms obtain best d where loop: "closestLoop color ?refs None = Some (best, d)"
    and le: "d \<le> maxDistance this"
    by (auto simp: findClosestReferenceColor_def split: if_splits option.splits)
  from assms loop le have m: "reference m = best" "ClosestMatch.distance m = d"
    "ClosestMatch.confidence m =
          (if maxDistance this = 0 then NaN
           else Num (toDouble (real_of_int (Math_round (toDouble
                  (max 0 (min 100 (toDouble (100 - toDouble
                     (toDouble (d / maxDistance this) * 100)))) * 100))) / 100)))"
    by (auto simp: findClosestReferenceColor_def Let_def split: if_splits)
  from closestLoop_spec[OF loop] obtain pre post where
    "?refs = pre @ best # post" "d = distanceTo color best"
    "\<forall>r\<in>set pre. distanceTo color best < distanceTo color r" "\<forall>r\<in>set post. distanceTo color best \<le> distanceTo color r"
    by auto
  with m le show ?thesis by auto
qed

lemma findClosest_None:
  assumes "findClosestReferenceColor this color = None" and "ref \<in> set (ColorMatcher.referenceColors this)"
  shows "\<exists>r\<in>set (ColorMatcher.referenceColors this). distanceTo color r \<le> distanceTo color ref \<and> maxDistance this < distanceTo color r"
proof -
  let ?refs = "ColorMatcher.referenceColors this"
  from assms(2) have ne: "?refs \<noteq> []" by auto
  with closestLoop_not_None[of ?refs None color] obtain best d
    where loop: "closestLoop color ?refs None = Some (best, d)" by auto
  with assms(1) ne have gt: "maxDistance this < d"
    by (auto simp: findClosestReferenceColor_def split: if_splits)
  from closestLoop_spec[OF loop] obtain pre post where p:
    "?refs = pre @ best # post" "d = distanceTo color best"
    "\<forall>r\<in>set pre. distanceTo color best < distanceTo color r" "\<forall>r\<in>set post. distanceTo color best \<le> distanceTo color r"
    by auto
  from p(1) assms(2) have "ref \<in> set pre \<or> ref = best \<or> ref \<in> set post" by auto
  with p have "distanceTo color best \<le> distanceTo color ref" by force
  moreover from p(1) have "best \<in> set ?refs" by simp
  ultimately show ?thesis using gt p(2) by blast
qed

subsection \<open>The computed distance of byte colors\<close>

lemma byte_square:
  assumes "- 255 \<le> d" and "d \<le> 255"
  shows "d * d \<le> (65025::int)"
proof -
  have "\<bar>d\<bar> * \<bar>d\<bar> \<le> 255 * 255" using assms by (intro mult_mono) simp_all
  then show ?thesis by (simp add: abs_mult_self_eq)
qed

lemma byte_distance:
  assumes "isByteColor c1" and "isByteColor c2"
  shows "\<exists>n. 0 \<le> n \<and> n \<le> 195075
     \<and> calculateColorDistance c1 c2 = toDouble (sqrt (real_of_int n))
     \<and> euclideanDistance c1 c2 = sqrt (real_of_int n)"
proof -
  define dr dg db where d: "dr = rgb_r c1 - rgb_r c2" "dg = rgb_g c1 - rgb_g c2" "db = rgb_b c1 - rgb_b c2"
  from assms have "- 255 \<le> dr" "dr \<le> 255" "- 255 \<le> dg" "dg \<le> 255" "- 255 \<le> db" "db \<le> 255"
    by (simp_all add: isByteColor_def d)
  then have "dr * dr \<le> 65025" "dg * dg \<le> 65025" "db * db \<le> 65025"
    by (simp_all add: byte_square)
  then have "0 \<le> dr * dr + dg * dg + db * db" "dr * dr + dg * dg + db * db \<le> 195075"
    by simp_all
  moreover have "calculateColorDistance c1 c2 = toDouble (sqrt (real_of_int (dr * dr + dg * dg + db * db)))"
    by (simp add: calculateColorDistance_def Math_sqrt_def Let_def d)
  moreover have "euclideanDistance c1 c2 = sqrt (real_of_int (dr * dr + dg * dg + db * db))"
    by (simp add: euclideanDistance_def power2_eq_square d)
  ultimately show ?thesis by blast
qed

lemma byte_distance_close:
  assumes "isByteColor c1" and "isByteColor c2"
  shows "\<bar>calculateColorDistance c1 c2 - euclideanDistance c1 c2\<bar> \<le> 1 / 2 ^ 38"
    and "0 \<le> calculateColorDistance c1 c2" and "calculateColorDistance c1 c2 \<le> 442"
    and "0 \<le> euclideanDistance c1 c2"
    and "calculateColorDistance c1 c2 = 0 \<and> euclideanDistance c1 c2 = 0 \<or> 1 \<le> calculateColorDistance c1 c2"
proof -
  from byte_distance[OF assms] obtain n where n: "0 \<le> n" "n \<le> 195075"
    and c: "calculateColorDistance c1 c2 = toDouble (sqrt (real_of_int n))"
    and e: "euclideanDistance c1 c2 = sqrt (real_of_int n)"
    by blast
  from sqrt_double_close[OF n] show "\<bar>calculateColorDistance c1 c2 - euclideanDistance c1 c2\<bar> \<le> 1 / 2 ^ 38"
    "0 \<le> calculateColorDistance c1 c2" "calculateColorDistance c1 c2 \<le> 442"
    unfolding c e by simp_all
  show "0 \<le> euclideanDistance c1 c2" unfolding e using n(1) by simp
  show "calculateColorDistance c1 c2 = 0 \<and> euclideanDistance c1 c2 = 0 \<or> 1 \<le> calculateColorDistance c1 c2"
  proof (cases "n = 0")
    case True
    then show ?thesis unfolding c e by (simp add: toDouble_def)
  next
    case False
    with n(1) have "1 \<le> n" by simp
    from sqrt_double_one[OF this] show ?thesis unfolding c by simp
  qed
qed

lemma byte_distance_order:
  assumes "isByteColor c1" and "isByteColor c2" and "isByteColor c3"
  shows "(calculateColorDistance c1 c2 \<le> calculateColorDistance c1 c3)
       = (euclideanDistance c1 c2 \<le> euclideanDistance c1 c3)"
proof -
  from byte_distance[OF assms(1,2)] obtain a where a: "0 \<le> a" "a \<le> 195075"
    "calculateColorDistance c1 c2 = toDouble (sqrt (real_of_int a))"
    "euclideanDistance c1 c2 = sqrt (real_of_int a)"
    by blast
  from byte_distance[OF assms(1,3)] obtain b where b: "0 \<le> b" "b \<le> 195075"
    "calculateColorDistance c1 c3 = toDouble (sqrt (real_of_int b))"
    "euclideanDistance c1 c3 = sqrt (real_of_int b)"
    by blast
  show ?thesis
    unfolding a(3,4) b(3,4) sqrt_double_order[OF a(1,2) b(1,2)] by simp
qed

lemma byte_distance_within:
  assumes "isByteColor c1" and "isByteColor c2" and "toDouble M = M"
    and "euclideanDistance c1 c2 \<le> M"
  shows "calculateColorDistance c1 c2 \<le> M"
proof -
  from byte_distance[OF assms(1,2)] obtain n where n: "0 \<le> n"
    and c: "calculateColorDistance c1 c2 = toDouble (sqrt (real_of_int n))"
    and e: "euclideanDistance c1 c2 = sqrt (real_of_int n)"
    by blast
  have "0 \<le> sqrt (real_of_int n)" using n by simp
  from toDouble_mono[OF this assms(4)[unfolded e]] show ?thesis
    unfolding c assms(3) .
qed

text \<open>The emitted distance and confidence against the exact values.\<close>

lemma emitted_distance_close:
  assumes "isByteColor c1" and "isByteColor c2"
  shows "\<bar>toDouble (real_of_int (Math_round (toDouble (calculateColorDistance c1 c2 * 100))) / 100)
          - euclideanDistance c1 c2\<bar> \<le> 1 / 200 + 1 / 10 ^ 9"
    and "\<bar>toDouble (real_of_int (Math_round (toDouble (calculateColorDistance c1 c2 * 100))) / 100)
          - calculateColorDistance c1 c2\<bar> \<le> 1 / 200 + 1 / 10 ^ 9"
proof -
  let ?d = "calculateColorDistance c1 c2"
  note b = byte_distance_close[OF assms]
  from round2_close(1)[OF b(2,3)] b(1)
  have "\<bar>toDouble (real_of_int (Math_round (toDouble (?d * 100))) / 100) - euclideanDistance c1 c2\<bar>
      \<le> 1 / 200 + 3 / 2 ^ 38 + 1 / 2 ^ 38"
    by linarith
  then show "\<bar>toDouble (real_of_int (Math_round (toDouble (?d * 100))) / 100) - euclideanDistance c1 c2\<bar>
      \<le> 1 / 200 + 1 / 10 ^ 9"
    by simp
  from round2_close(1)[OF b(2,3)]
  show "\<bar>toDouble (real_of_int (Math_round (toDouble (?d * 100))) / 100) - ?d\<bar> \<le> 1 / 200 + 1 / 10 ^ 9"
    by simp
qed

lemma emitted_distance_le:
  assumes "isByteColor c1" and "isByteColor c2" and "toDouble M = M"
    and "calculateColorDistance c1 c2 \<le> M" and "100 * M \<in> \<int>"
  shows "toDouble (real_of_int (Math_round (toDouble (calculateColorDistance c1 c2 * 100))) / 100) \<le> M"
proof -
  let ?d = "calculateColorDistance c1 c2"
  note b = byte_distance_close[OF assms(1,2)]
  from assms(5) obtain j where j: "100 * M = real_of_int j" by (auto elim: Ints_cases)
  show ?thesis
  proof (cases "j < 2 ^ 53")
    case True
    from j have "M * 100 = real_of_int j" by (simp add: mult.commute)
    from round2_le[OF b(2) assms(4) this True assms(3)] show ?thesis .
  next
    case False
    then have "real_of_int (2 ^ 53) \<le> real_of_int j" by (simp only: of_int_le_iff not_less)
    with j have "443 \<le> M" by simp
    moreover have "1 / 200 + 1 / 10 ^ 9 \<le> (1::real)" by simp
    ultimately show ?thesis using emitted_distance_close(2)[OF assms(1,2)] b(3) by linarith
  qed
qed

lemma emitted_confidence_close:
  assumes "isByteColor c1" and "isByteColor c2" and "calculateColorDistance c1 c2 \<le> M" and "M \<noteq> 0"
  shows "\<exists>c. toDouble (real_of_int (Math_round (toDouble
                  (max 0 (min 100 (toDouble (100 - toDouble
                     (toDouble (calculateColorDistance c1 c2 / M) * 100)))) * 100))) / 100) = c
     \<and> 0 \<le> c \<and> c \<le> 100
     \<and> \<bar>c - max 0 (min 100 (100 * (1 - euclideanDistance c1 c2 / M)))\<bar> \<le> 1 / 200 + 1 / 10 ^ 9"
proof -
  let ?d = "calculateColorDistance c1 c2" and ?s = "euclideanDistance c1 c2"
  let ?c = "toDouble (100 - toDouble (toDouble (?d / M) * 100))"
  let ?conf = "toDouble (real_of_int (Math_round (toDouble (max 0 (min 100 ?c) * 100))) / 100)"
  note b = byte_distance_close[OF assms(1,2)]
  from b(2) assms(3,4) have M: "0 < M" by simp
  note cc = confidence_close[OF b(2) assms(3) M]
  from cc(1,2) have clamp: "max 0 (min 100 ?c) = ?c" by simp
  from cc(1,2) have c442: "?c \<le> 442" by simp
  note r = round2_close[OF cc(1) c442]
  have "toDouble 100 = 100" by (rule toDouble_numeral_byte)
  from round2_le[OF cc(1,2) _ _ this, of 10000]
  have upper: "toDouble (real_of_int (Math_round (toDouble (?c * 100))) / 100) \<le> 100" by simp
  have quot: "\<bar>100 * (?d / M) - 100 * (?s / M)\<bar> \<le> 100 / 2 ^ 38"
  proof -
    from b(5) show ?thesis
    proof
      assume "?d = 0 \<and> ?s = 0"
      then show ?thesis by simp
    next
      assume "1 \<le> ?d"
      with assms(3) have M1: "1 \<le> M" by simp
      have "\<bar>?d / M - ?s / M\<bar> = \<bar>?d - ?s\<bar> / M"
        using M by (simp add: diff_divide_distrib[symmetric])
      also have "\<dots> \<le> \<bar>?d - ?s\<bar> / 1"
        using M1 by (intro divide_left_mono) simp_all
      finally have "\<bar>?d / M - ?s / M\<bar> \<le> 1 / 2 ^ 38" using b(1) by simp
      then show ?thesis by linarith
    qed
  qed
  define e :: real where "e = 1 / 2 ^ 38"
  define x y where xy: "x = ?d / M" "y = ?s / M"
  have "\<bar>?c - (100 - 100 * x)\<bar> \<le> 102 * e" "\<bar>100 * x - 100 * y\<bar> \<le> 100 * e"
    using cc(3) quot by (simp_all add: e_def xy)
  then have "\<bar>?c - 100 * (1 - y)\<bar> \<le> 202 * e" by argo
  then have "\<bar>?c - 100 * (1 - ?s / M)\<bar> \<le> 202 * (1 / 2 ^ 38)"
    by (simp only: e_def xy)
  with cc(1,2) have "\<bar>?c - max 0 (min 100 (100 * (1 - ?s / M)))\<bar> \<le> 202 * (1 / 2 ^ 38)"
    unfolding max_def min_def by (auto; linarith)
  with r(1) have "\<bar>toDouble (real_of_int (Math_round (toDouble (?c * 100))) / 100)
      - max 0 (min 100 (100 * (1 - ?s / M)))\<bar> \<le> 1 / 200 + 205 * (1 / 2 ^ 38)"
    by linarith
  then have "\<bar>toDouble (real_of_int (Math_round (toDouble (?c * 100))) / 100)
      - max 0 (min 100 (100 * (1 - ?s / M)))\<bar> \<le> 1 / 200 + 1 / 10 ^ 9"
    by simp
  with r(2) upper show ?thesis by (simp only: clamp) simp
qed

subsection \<open>Evaluation at the concrete inputs\<close>

lemma sqrt_25: "sqrt 25 = 5"
  by (rule real_sqrt_unique) simp_all


lemma sqrt_6889: "sqrt 6889 = 83"
  by (rule real_sqrt_unique) simp_all

lemma sqrt_5_bounds: "2236 / 1000 < sqrt 5" "sqrt 5 < 22361 / 10000"
  by (rule real_less_rsqrt, simp add: power2_eq_square) (rule real_less_lsqrt, simp_all add: power2_eq_square)

lemma toDouble_small:
  "toDouble 5 = 5" "toDouble 83 = 83" "toDouble 150 = 150" "toDouble 160 = 160"
  "toDouble 200 = 200" "toDouble 500 = 500" "toDouble 8300 = 8300"
  using toDouble_of_int[of 5] toDouble_of_int[of 83] toDouble_of_int[of 150] toDouble_of_int[of 160]
    toDouble_of_int[of 200] toDouble_of_int[of 500] toDouble_of_int[of 8300]
  by simp_all

lemma ex_dist_5: "calculateColorDistance (ColorBox.rgb ex_black) (ReferenceColor.rgb (ex_reference 3 4 0)) = 5"
  by (simp add: calculateColorDistance_def Math_sqrt_def ex_black_def ex_reference_def sqrt_25 toDouble_small)


lemma ex_dist_83: "calculateColorDistance (ColorBox.rgb ex_black) (ReferenceColor.rgb (ex_reference 83 0 0)) = 83"
  by (simp add: calculateColorDistance_def Math_sqrt_def ex_black_def ex_reference_def sqrt_6889 toDouble_small)

lemma ex_dist_sqrt5:
  "calculateColorDistance (ColorBox.rgb ex_black) (ReferenceColor.rgb (ex_reference 1 2 0)) = toDouble (sqrt 5)"
  by (simp add: calculateColorDistance_def Math_sqrt_def ex_black_def ex_reference_def)

text \<open>The default matcher at distance 5: the confidence is rounded from \<open>96.666...\<close> to \<open>96.67\<close>.\<close>

lemma ex_default_round:
  "Math_round (toDouble (max 0 (min 100 (toDouble (100 - toDouble (toDouble (5 / 150) * 100)))) * 100)) = 9667"
proof -
  let ?c = "toDouble (100 - toDouble (toDouble (5 / 150) * 100))"
  have cc: "0 \<le> ?c" "?c \<le> 100" "\<bar>?c - (100 - 100 * (5 / 150))\<bar> \<le> 102 / 2 ^ 38"
    using confidence_close[of 5 150] by simp_all
  then have clamp: "max 0 (min 100 ?c) = ?c" by simp
  have "\<bar>?c * 100\<bar> < 65536" using cc(1,2) by simp
  from toDouble_close16[OF this] have t: "\<bar>toDouble (?c * 100) - ?c * 100\<bar> \<le> 1 / 2 ^ 38" .
  have "(102::real) / 2 ^ 38 \<le> 1 / 1000000" "(1::real) / 2 ^ 38 \<le> 1 / 1000000" by simp_all
  from order_trans[OF cc(3) this(1)] order_trans[OF t this(2)]
  have "\<bar>?c - (100 - 100 * (5 / 150))\<bar> \<le> 1 / 1000000"
    "\<bar>toDouble (?c * 100) - ?c * 100\<bar> \<le> 1 / 1000000" .
  moreover have "100 - 100 * (5 / 150) = (290 / 3 :: real)" by simp
  ultimately have "\<bar>?c - 290 / 3\<bar> \<le> 1 / 1000000"
    "\<bar>toDouble (?c * 100) - ?c * 100\<bar> \<le> 1 / 1000000" by simp_all
  then have "9667 \<le> toDouble (?c * 100) + 1 / 2" "toDouble (?c * 100) + 1 / 2 < 9667 + 1"
    by argo+
  then have "\<lfloor>toDouble (?c * 100) + 1 / 2\<rfloor> = 9667" by (simp add: floor_eq_iff)
  then show ?thesis by (simp only: clamp Math_round_def)
qed

lemma ex_default_eval: "matchedReference (matchColor (ex_matcher [ex_reference 3 4 0]) ex_black)
  = \<lparr>MatchedReference.colorCode = ''B60002'', colorName = ''New Black'', pantoneColor = ''19-0303 TCX'',
     distance = 5, confidence = Num (toDouble (9667 / 100))\<rparr>"
proof -
  have "Math_round 500 = 500" by (simp add: Math_round_def)
  then show ?thesis
    using ex_dist_5 ex_default_round
    by (simp add: matchColor_def findClosestReferenceColor_def new_ColorMatcher_def Let_def
        ex_matcher_def ex_reference_def toDouble_small)
qed

text \<open>
  The matcher with the distance 160 at the computed distance 83: the operations of the
  confidence, one rounding at a time.
\<close>

lemma ex_wide_quotient: "toDouble (83 / 160) = 4672484613396890 / 2 ^ 53"
  using toDouble_eval[of "- 1" "83 / 160" "1 / 2 ^ 53" 4672484613396890]
  by (simp add: powr_minus_divide)

lemma ex_wide_percent: "toDouble (4672484613396890 / 2 ^ 53 * 100) = 7300757208432641 / 2 ^ 47"
  using toDouble_eval[of 5 "4672484613396890 / 2 ^ 53 * 100" "1 / 2 ^ 47" 7300757208432641]
  by (simp add: powr_minus_divide)

lemma ex_wide_difference: "toDouble (100 - 7300757208432641 / 2 ^ 47) = 6772991627100159 / 2 ^ 47"
  using toDouble_eval[of 5 "100 - 7300757208432641 / 2 ^ 47" "1 / 2 ^ 47" 6772991627100159]
  by (simp add: powr_minus_divide)

lemma ex_wide_scaled: "toDouble (6772991627100159 / 2 ^ 47 * 100) = 5291399708671999 / 2 ^ 40"
  using toDouble_eval[of 12 "6772991627100159 / 2 ^ 47 * 100" "1 / 2 ^ 40" 5291399708671999]
  by (simp add: powr_minus_divide)

lemma ex_wide_round: "Math_round (5291399708671999 / 2 ^ 40) = 4812"
  by (simp add: Math_round_def floor_eq_iff)

lemma ex_wide_eval: "matchedReference (matchColor ex_wide_matcher ex_black)
  = \<lparr>MatchedReference.colorCode = ''B60002'', colorName = ''New Black'', pantoneColor = ''19-0303 TCX'',
     distance = 83, confidence = Num (toDouble (4812 / 100))\<rparr>"
proof -
  have c: "toDouble (100 - toDouble (toDouble (83 / 160) * 100)) = 6772991627100159 / 2 ^ 47"
    by (simp only: ex_wide_quotient ex_wide_percent ex_wide_difference)
  have clamp: "max 0 (min 100 (6772991627100159 / 2 ^ 47)) = (6772991627100159 / 2 ^ 47 :: real)"
    by simp
  have conf: "Math_round (toDouble (max 0 (min 100 (toDouble (100 - toDouble (toDouble (83 / 160) * 100)))) * 100)) = 4812"
    by (simp only: c clamp ex_wide_scaled ex_wide_round)
  have "Math_round 8300 = 8300" by (simp add: Math_round_def)
  then show ?thesis
    using ex_dist_83 conf
    by (simp add: matchColor_def findClosestReferenceColor_def new_ColorMatcher_def Let_def
        ex_wide_matcher_def ex_reference_def toDouble_small)
qed

lemma ex_wide_below: "toDouble (4812 / 100) < 385 / 8 - 49 / 10000"
proof -
  have "\<bar>(4812 / 100 :: real)\<bar> < 65536" by simp
  from toDouble_close16[OF this] have "\<bar>toDouble (4812 / 100) - 4812 / 100\<bar> \<le> 1 / 2 ^ 38" .
  moreover have "(1::real) / 2 ^ 38 \<le> 1 / 1000000" by simp
  ultimately have "\<bar>toDouble (4812 / 100) - 4812 / 100\<bar> \<le> 1 / 1000000" by (rule order_trans)
  then show ?thesis by argo
qed

text \<open>
  The matcher with the distance \<open>2291 / 1024\<close> at the computed distance \<open>\<surd>5\<close>: the emitted
  distance is \<open>2.24\<close>.
\<close>

lemma ex_tight_root:
  "\<bar>toDouble (sqrt 5) - sqrt 5\<bar> \<le> 1 / 1000000" "0 \<le> toDouble (sqrt 5)"
proof -
  have "\<bar>sqrt 5\<bar> < 65536" using sqrt_5_bounds by simp
  from toDouble_close16[OF this] have "\<bar>toDouble (sqrt 5) - sqrt 5\<bar> \<le> 1 / 2 ^ 38" .
  moreover have "(1::real) / 2 ^ 38 \<le> 1 / 1000000" by simp
  ultimately show "\<bar>toDouble (sqrt 5) - sqrt 5\<bar> \<le> 1 / 1000000" by (rule order_trans)
  show "0 \<le> toDouble (sqrt 5)" by (rule toDouble_nonneg) simp
qed

lemma ex_tight_within: "toDouble (sqrt 5) \<le> 2291 / 1024"
  using ex_tight_root(1) sqrt_5_bounds by argo

lemma ex_tight_round: "Math_round (toDouble (toDouble (sqrt 5) * 100)) = 224"
proof -
  let ?d = "toDouble (sqrt 5)"
  have "\<bar>?d * 100\<bar> < 65536" using ex_tight_root ex_tight_within by simp
  from toDouble_close16[OF this] have "\<bar>toDouble (?d * 100) - ?d * 100\<bar> \<le> 1 / 2 ^ 38" .
  moreover have "(1::real) / 2 ^ 38 \<le> 1 / 1000000" by simp
  ultimately have "\<bar>toDouble (?d * 100) - ?d * 100\<bar> \<le> 1 / 1000000" by (rule order_trans)
  with ex_tight_root(1) sqrt_5_bounds
  have "224 \<le> toDouble (?d * 100) + 1 / 2" "toDouble (?d * 100) + 1 / 2 < 224 + 1"
    by argo+
  then have "\<lfloor>toDouble (?d * 100) + 1 / 2\<rfloor> = 224" by (simp add: floor_eq_iff)
  then show ?thesis by (simp only: Math_round_def)
qed

lemma ex_tight_distance:
  "MatchedReference.distance (matchedReference (matchColor ex_tight_matcher ex_black)) = toDouble (224 / 100)"
  using ex_dist_sqrt5 ex_tight_within ex_tight_round
  by (simp add: matchColor_def findClosestReferenceColor_def new_ColorMatcher_def Let_def
      ex_tight_matcher_def ex_reference_def)

lemma ex_tight_above: "2291 / 1024 < toDouble (224 / 100)"
proof -
  have "\<bar>(224 / 100 :: real)\<bar> < 65536" by simp
  from toDouble_close16[OF this] have "\<bar>toDouble (224 / 100) - 224 / 100\<bar> \<le> 1 / 2 ^ 38" .
  moreover have "(1::real) / 2 ^ 38 \<le> 1 / 1000000" by simp
  ultimately have "\<bar>toDouble (224 / 100) - 224 / 100\<bar> \<le> 1 / 1000000" by (rule order_trans)
  then show ?thesis by argo
qed

lemma ex_doubles: "isDouble 150" "isDouble 160" "isDouble (2291 / 1024)"
proof -
  show "isDouble 150" "isDouble 160" by (simp_all add: isDouble_def toDouble_small)
  have "toDouble (2291 / 1024) = 5037962278469632 * (1 / 2 ^ 51)"
    using toDouble_eval[of 1 "2291 / 1024" "1 / 2 ^ 51" 5037962278469632]
    by (simp add: powr_minus_divide)
  then show "isDouble (2291 / 1024)" by (simp add: isDouble_def)
qed

subsection \<open>Nearest match, rounding and the acceptance threshold\<close>

text \<open>
  Claim C1, as the code has it, for a sampled color and a palette whose channels are bytes
  and a \<^verbatim>\<open>maxDistance\<close> that is a finite binary64 value. Let \<open>exact\<close> be the Euclidean RGB
  distance from the sampled color to a reference entry and \<open>dist\<close> the distance the code
  computes for it, the rounded root. The computed distance is within \<open>2\<close> to the \<open>-38\<close> of
  the exact one, orders the entries as the exact one does, and is at most \<^verbatim>\<open>maxDistance\<close>
  whenever the exact one is. Whenever some entry \<open>ref\<close> of the palette is at minimal distance
  and its computed distance is at most \<^verbatim>\<open>maxDistance\<close>, the emitted record carries the
  code, name and pantone label of the first palette entry \<open>best\<close> at that minimal distance;
  its \<^verbatim>\<open>distance\<close> is the computed minimum rounded to two decimals
  (\<^verbatim>\<open>Math.round(d * 100) / 100\<close>), within \<open>0.005 + 10\<close> to the \<open>-9\<close> of the exact minimum; its
  \<^verbatim>\<open>confidence\<close> is \<^verbatim>\<open>100 - (d / maxDistance) * 100\<close>, clamped to 0 and 100 and rounded
  to two decimals in the same way, every operation in binary64 (\<^verbatim>\<open>NaN\<close> when
  \<^verbatim>\<open>maxDistance\<close> is 0): a value between 0 and 100 within \<open>0.005 + 10\<close> to the \<open>-9\<close> of
  \<open>clamp (100 \<times> (1 - exact / maxDistance)) 0 100\<close>. Conversely every record that is not the
  sentinel (its distance is not \<open>-1\<close>) comes from a palette entry at minimal distance whose
  computed distance is at most \<^verbatim>\<open>maxDistance\<close>; the emitted, rounded distance is at most
  \<^verbatim>\<open>maxDistance\<close> plus \<open>0.005 + 10\<close> to the \<open>-9\<close>, and at most \<^verbatim>\<open>maxDistance\<close> whenever
  \<open>100 \<times> maxDistance\<close> is an integer, as for the default 150.
\<close>

theorem matchColor_nearest_reference:
  assumes "isByteColor (ColorBox.rgb color)"
    and "\<forall>r\<in>set (ColorMatcher.referenceColors this). isByteColor (ReferenceColor.rgb r)"
    and "isDouble (maxDistance this)"
  shows
  "(let dist = (\<lambda>ref. calculateColorDistance (ColorBox.rgb color) (ReferenceColor.rgb ref));
        exact = (\<lambda>ref. euclideanDistance (ColorBox.rgb color) (ReferenceColor.rgb ref));
        refs = ColorMatcher.referenceColors this;
        out = matchedReference (matchColor this color)
    in (\<forall>ref\<in>set refs. \<bar>dist ref - exact ref\<bar> \<le> 1 / 2 ^ 38
          \<and> (exact ref \<le> maxDistance this \<longrightarrow> dist ref \<le> maxDistance this)
          \<and> (\<forall>r\<in>set refs. (dist ref \<le> dist r) = (exact ref \<le> exact r)))
     \<and> (\<forall>ref\<in>set refs. (\<forall>r\<in>set refs. exact ref \<le> exact r) \<and> dist ref \<le> maxDistance this \<longrightarrow>
          (\<exists>pre best post. refs = pre @ best # post \<and> exact best = exact ref
             \<and> (\<forall>r\<in>set pre. exact ref < exact r)
             \<and> out = \<lparr>MatchedReference.colorCode = ReferenceColor.colorCode best,
                      colorName = ReferenceColor.colorName best,
                      pantoneColor = ReferenceColor.pantoneColor best,
                      distance = toDouble (real_of_int (Math_round (toDouble (dist ref * 100))) / 100),
                      confidence =
                        (if maxDistance this = 0 then NaN
                         else Num (toDouble (real_of_int (Math_round (toDouble
                                (max 0 (min 100 (toDouble (100 - toDouble
                                   (toDouble (dist ref / maxDistance this) * 100)))) * 100))) / 100)))\<rparr>
             \<and> \<bar>MatchedReference.distance out - exact ref\<bar> \<le> 1 / 200 + 1 / 10 ^ 9
             \<and> (maxDistance this \<noteq> 0 \<longrightarrow>
                  (\<exists>c. MatchedReference.confidence out = Num c \<and> 0 \<le> c \<and> c \<le> 100
                     \<and> \<bar>c - max 0 (min 100 (100 * (1 - exact ref / maxDistance this)))\<bar>
                          \<le> 1 / 200 + 1 / 10 ^ 9))))
     \<and> (MatchedReference.distance out \<noteq> - 1 \<longrightarrow>
          (\<exists>ref\<in>set refs. (\<forall>r\<in>set refs. exact ref \<le> exact r) \<and> dist ref \<le> maxDistance this
             \<and> MatchedReference.distance out
                  = toDouble (real_of_int (Math_round (toDouble (dist ref * 100))) / 100)
             \<and> MatchedReference.distance out \<le> maxDistance this + (1 / 200 + 1 / 10 ^ 9)
             \<and> (100 * maxDistance this \<in> \<int> \<longrightarrow> MatchedReference.distance out \<le> maxDistance this))))"
proof -
  let ?refs = "ColorMatcher.referenceColors this"
  let ?out = "matchedReference (matchColor this color)"
  let ?M = "maxDistance this"
  let ?exact = "\<lambda>ref. euclideanDistance (ColorBox.rgb color) (ReferenceColor.rgb ref)"
  note sw = assms(1)
  have byte: "isByteColor (ReferenceColor.rgb r)" if "r \<in> set ?refs" for r
    using assms(2) that by simp
  from assms(3) have M: "toDouble ?M = ?M" by (simp add: isDouble_def)
  have order: "(distanceTo color a \<le> distanceTo color b) = (?exact a \<le> ?exact b)"
    if "a \<in> set ?refs" "b \<in> set ?refs" for a b
    using byte_distance_order[OF sw byte[OF that(1)] byte[OF that(2)]] .
  have F: "\<bar>distanceTo color ref - ?exact ref\<bar> \<le> 1 / 2 ^ 38
          \<and> (?exact ref \<le> ?M \<longrightarrow> distanceTo color ref \<le> ?M)
          \<and> (\<forall>r\<in>set ?refs. (distanceTo color ref \<le> distanceTo color r) = (?exact ref \<le> ?exact r))"
    if ref: "ref \<in> set ?refs" for ref
    using byte_distance_close(1)[OF sw byte[OF ref]] byte_distance_within[OF sw byte[OF ref] M]
      order[OF ref]
    by blast
  have A: "\<exists>pre best post. ?refs = pre @ best # post \<and> ?exact best = ?exact ref
             \<and> (\<forall>r\<in>set pre. ?exact ref < ?exact r)
             \<and> ?out = \<lparr>MatchedReference.colorCode = ReferenceColor.colorCode best,
                      colorName = ReferenceColor.colorName best,
                      pantoneColor = ReferenceColor.pantoneColor best,
                      distance = toDouble (real_of_int (Math_round (toDouble (distanceTo color ref * 100))) / 100),
                      confidence =
                        (if ?M = 0 then NaN
                         else Num (toDouble (real_of_int (Math_round (toDouble
                                (max 0 (min 100 (toDouble (100 - toDouble
                                   (toDouble (distanceTo color ref / ?M) * 100)))) * 100))) / 100)))\<rparr>
             \<and> \<bar>MatchedReference.distance ?out - ?exact ref\<bar> \<le> 1 / 200 + 1 / 10 ^ 9
             \<and> (?M \<noteq> 0 \<longrightarrow>
                  (\<exists>c. MatchedReference.confidence ?out = Num c \<and> 0 \<le> c \<and> c \<le> 100
                     \<and> \<bar>c - max 0 (min 100 (100 * (1 - ?exact ref / ?M)))\<bar> \<le> 1 / 200 + 1 / 10 ^ 9))"
    if ref: "ref \<in> set ?refs" and minimal: "\<forall>r\<in>set ?refs. ?exact ref \<le> ?exact r"
      and within: "distanceTo color ref \<le> ?M" for ref
  proof (cases "findClosestReferenceColor this color")
    case None
    from findClosest_None[OF None ref] obtain r where "r \<in> set ?refs" "?M < distanceTo color r"
      "distanceTo color r \<le> distanceTo color ref" by auto
    with within show ?thesis by simp
  next
    case (Some m)
    from findClosest_Some[OF Some] obtain pre post where p:
      "?refs = pre @ reference m # post" "ClosestMatch.distance m = distanceTo color (reference m)"
      "\<forall>r\<in>set pre. distanceTo color (reference m) < distanceTo color r"
      "\<forall>r\<in>set post. distanceTo color (reference m) \<le> distanceTo color r"
      and conf: "ClosestMatch.confidence m =
          (if ?M = 0 then NaN
           else Num (toDouble (real_of_int (Math_round (toDouble
                  (max 0 (min 100 (toDouble (100 - toDouble
                     (toDouble (ClosestMatch.distance m / ?M) * 100)))) * 100))) / 100)))"
      by blast
    have best: "reference m \<in> set ?refs" using p(1) by simp
    from p(1) ref have "ref \<in> set pre \<or> ref = reference m \<or> ref \<in> set post" by auto
    with p have "distanceTo color (reference m) \<le> distanceTo color ref" by force
    moreover from minimal best have "?exact ref \<le> ?exact (reference m)" by simp
    then have "distanceTo color ref \<le> distanceTo color (reference m)"
      by (simp only: order[OF ref best])
    ultimately have eq: "distanceTo color (reference m) = distanceTo color ref" by simp
    then have "?exact (reference m) \<le> ?exact ref" "?exact ref \<le> ?exact (reference m)"
      using order[OF best ref] order[OF ref best] by simp_all
    then have exact_eq: "?exact (reference m) = ?exact ref" by simp
    have before: "\<forall>r\<in>set pre. ?exact ref < ?exact r"
    proof
      fix r assume r: "r \<in> set pre"
      then have mem: "r \<in> set ?refs" using p(1) by simp
      from p(3) r have "\<not> distanceTo color r \<le> distanceTo color ref" unfolding eq by force
      then show "?exact ref < ?exact r" by (simp add: order[OF mem ref] not_le)
    qed
    have out: "?out = \<lparr>MatchedReference.colorCode = ReferenceColor.colorCode (reference m),
                      colorName = ReferenceColor.colorName (reference m),
                      pantoneColor = ReferenceColor.pantoneColor (reference m),
                      distance = toDouble (real_of_int (Math_round (toDouble (distanceTo color ref * 100))) / 100),
                      confidence =
                        (if ?M = 0 then NaN
                         else Num (toDouble (real_of_int (Math_round (toDouble
                                (max 0 (min 100 (toDouble (100 - toDouble
                                   (toDouble (distanceTo color ref / ?M) * 100)))) * 100))) / 100)))\<rparr>"
      using Some conf p(2) eq by (simp add: matchColor_def)
    have near: "\<bar>MatchedReference.distance ?out - ?exact ref\<bar> \<le> 1 / 200 + 1 / 10 ^ 9"
      using emitted_distance_close(1)[OF sw byte[OF ref]] by (simp only: out MatchedReference.select_convs)
    have score: "\<exists>c. MatchedReference.confidence ?out = Num c \<and> 0 \<le> c \<and> c \<le> 100
                     \<and> \<bar>c - max 0 (min 100 (100 * (1 - ?exact ref / ?M)))\<bar> \<le> 1 / 200 + 1 / 10 ^ 9"
      if nz: "?M \<noteq> 0"
    proof -
      from emitted_confidence_close[OF sw byte[OF ref] within nz] obtain c where c:
        "toDouble (real_of_int (Math_round (toDouble
                  (max 0 (min 100 (toDouble (100 - toDouble
                     (toDouble (distanceTo color ref / ?M) * 100)))) * 100))) / 100) = c"
        "0 \<le> c" "c \<le> 100"
        "\<bar>c - max 0 (min 100 (100 * (1 - ?exact ref / ?M)))\<bar> \<le> 1 / 200 + 1 / 10 ^ 9"
        by blast
      have "MatchedReference.confidence ?out = Num c"
        using nz by (simp only: out MatchedReference.select_convs c(1) if_False)
      with c(2-4) show ?thesis by blast
    qed
    from p(1) exact_eq before out near score show ?thesis by blast
  qed
  have B: "\<exists>ref\<in>set ?refs. (\<forall>r\<in>set ?refs. ?exact ref \<le> ?exact r) \<and> distanceTo color ref \<le> ?M
             \<and> MatchedReference.distance ?out
                  = toDouble (real_of_int (Math_round (toDouble (distanceTo color ref * 100))) / 100)
             \<and> MatchedReference.distance ?out \<le> ?M + (1 / 200 + 1 / 10 ^ 9)
             \<and> (100 * ?M \<in> \<int> \<longrightarrow> MatchedReference.distance ?out \<le> ?M)"
    if matched: "MatchedReference.distance ?out \<noteq> - 1"
  proof (cases "findClosestReferenceColor this color")
    case None
    with matched show ?thesis by (simp add: matchColor_def)
  next
    case (Some m)
    from findClosest_Some[OF Some] obtain pre post where p:
      "?refs = pre @ reference m # post" "ClosestMatch.distance m = distanceTo color (reference m)"
      "\<forall>r\<in>set pre. distanceTo color (reference m) < distanceTo color r"
      "\<forall>r\<in>set post. distanceTo color (reference m) \<le> distanceTo color r"
      "ClosestMatch.distance m \<le> ?M"
      by blast
    have out: "MatchedReference.distance ?out
        = toDouble (real_of_int (Math_round (toDouble (distanceTo color (reference m) * 100))) / 100)"
      using Some p(2) by (simp add: matchColor_def)
    have mem: "reference m \<in> set ?refs" using p(1) by simp
    have "\<forall>r\<in>set ?refs. distanceTo color (reference m) \<le> distanceTo color r"
      using p(1,3,4) by force
    then have minimal: "\<forall>r\<in>set ?refs. ?exact (reference m) \<le> ?exact r"
      using order[OF mem] by simp
    have le: "distanceTo color (reference m) \<le> ?M" using p(2,5) by simp
    from emitted_distance_close(2)[OF sw byte[OF mem]] le
    have up: "MatchedReference.distance ?out \<le> ?M + (1 / 200 + 1 / 10 ^ 9)"
      unfolding out by linarith
    have "100 * ?M \<in> \<int> \<longrightarrow> MatchedReference.distance ?out \<le> ?M"
      using emitted_distance_le[OF sw byte[OF mem] M le] by (simp only: out) blast
    with mem minimal le out up show ?thesis by blast
  qed
  show ?thesis unfolding Let_def using F A B by blast
qed

theorem matchColor_nearest_reference_witness:
  "isByteColor (ColorBox.rgb ex_black)
   \<and> isByteColor (ReferenceColor.rgb (ex_reference 3 4 0))
   \<and> isDouble (maxDistance (ex_matcher [ex_reference 3 4 0]))
   \<and> ex_reference 3 4 0 \<in> set (ColorMatcher.referenceColors (ex_matcher [ex_reference 3 4 0]))
   \<and> calculateColorDistance (ColorBox.rgb ex_black) (ReferenceColor.rgb (ex_reference 3 4 0))
        \<le> maxDistance (ex_matcher [ex_reference 3 4 0])
   \<and> matchedReference (matchColor (ex_matcher [ex_reference 3 4 0]) ex_black)
      = \<lparr>MatchedReference.colorCode = ''B60002'', colorName = ''New Black'',
         pantoneColor = ''19-0303 TCX'', distance = 5, confidence = Num (toDouble (9667 / 100))\<rparr>
   \<and> \<bar>toDouble (9667 / 100) - 290 / 3\<bar> \<le> 1 / 200 + 1 / 10 ^ 9
   \<and> MatchedReference.distance (matchedReference (matchColor (ex_matcher [ex_reference 3 4 0]) ex_black)) \<noteq> - 1
   \<and> MatchedReference.distance (matchedReference (matchColor (ex_matcher [ex_reference 3 4 0]) ex_black))
        \<le> maxDistance (ex_matcher [ex_reference 3 4 0])"
proof -
  let ?m = "ex_matcher [ex_reference 3 4 0]"
  let ?r = "ex_reference 3 4 0"
  let ?out = "matchedReference (matchColor ?m ex_black)"
  have refs: "ColorMatcher.referenceColors ?m = [?r]" and md: "maxDistance ?m = 150"
    by (simp_all add: ex_matcher_def new_ColorMatcher_def)
  have h1: "isByteColor (ColorBox.rgb ex_black)"
    by (simp add: isByteColor_def ex_black_def)
  have byte: "isByteColor (ReferenceColor.rgb ?r)"
    by (simp add: isByteColor_def ex_reference_def)
  then have h2: "\<forall>r\<in>set (ColorMatcher.referenceColors ?m). isByteColor (ReferenceColor.rgb r)"
    by (simp add: refs)
  have h3: "isDouble (maxDistance ?m)" by (simp only: md ex_doubles)
  have exact: "euclideanDistance (ColorBox.rgb ex_black) (ReferenceColor.rgb ?r) = 5"
    by (simp add: euclideanDistance_def ex_black_def ex_reference_def sqrt_25)
  note inst = matchColor_nearest_reference[OF h1 h2 h3, unfolded Let_def refs md]
  have hyp: "(\<forall>r\<in>set [?r]. euclideanDistance (ColorBox.rgb ex_black) (ReferenceColor.rgb ?r)
                 \<le> euclideanDistance (ColorBox.rgb ex_black) (ReferenceColor.rgb r))
      \<and> distanceTo ex_black ?r \<le> 150"
    by (simp add: ex_dist_5)
  have mem: "?r \<in> set [?r]" by simp
  from inst[THEN conjunct2, THEN conjunct1, THEN bspec, OF mem, THEN mp, OF hyp]
  obtain pre best post where split: "[?r] = pre @ best # post"
    and out: "?out
      = \<lparr>MatchedReference.colorCode = ReferenceColor.colorCode best,
         colorName = ReferenceColor.colorName best,
         pantoneColor = ReferenceColor.pantoneColor best,
         distance = toDouble (real_of_int (Math_round (toDouble (distanceTo ex_black ?r * 100))) / 100),
         confidence = (if (150::real) = 0 then NaN
                         else Num (toDouble (real_of_int (Math_round (toDouble
                                (max 0 (min 100 (toDouble (100 - toDouble
                                   (toDouble (distanceTo ex_black ?r / 150) * 100)))) * 100))) / 100)))\<rparr>"
    and score: "(150::real) \<noteq> 0 \<longrightarrow>
          (\<exists>c. MatchedReference.confidence ?out = Num c \<and> 0 \<le> c \<and> c \<le> 100
             \<and> \<bar>c - max 0 (min 100 (100 * (1 -
                   euclideanDistance (ColorBox.rgb ex_black) (ReferenceColor.rgb ?r) / 150)))\<bar>
                  \<le> 1 / 200 + 1 / 10 ^ 9)"
    by blast
  from split have best: "best = ?r"
    by (cases pre) auto
  have "Math_round 500 = 500" by (simp add: Math_round_def)
  then have emitted: "?out
      = \<lparr>MatchedReference.colorCode = ''B60002'', colorName = ''New Black'',
         pantoneColor = ''19-0303 TCX'', distance = 5, confidence = Num (toDouble (9667 / 100))\<rparr>"
    unfolding out best ex_dist_5 using ex_default_round by (simp add: ex_reference_def toDouble_small)
  from score obtain c where c: "MatchedReference.confidence ?out = Num c"
    "\<bar>c - max 0 (min 100 (100 * (1 -
         euclideanDistance (ColorBox.rgb ex_black) (ReferenceColor.rgb ?r) / 150)))\<bar>
      \<le> 1 / 200 + 1 / 10 ^ 9"
    by auto
  from c(1) have "c = toDouble (9667 / 100)" by (simp add: emitted)
  with c(2) have bound: "\<bar>toDouble (9667 / 100) - 290 / 3\<bar> \<le> 1 / 200 + 1 / 10 ^ 9"
    by (simp add: exact)
  have live: "MatchedReference.distance ?out \<noteq> - 1" by (simp add: emitted)
  from inst[THEN conjunct2, THEN conjunct2, THEN mp, OF live]
  have "(100 * (150::real) \<in> \<int> \<longrightarrow> MatchedReference.distance ?out \<le> 150)"
    by auto
  then have below: "MatchedReference.distance ?out \<le> 150" by simp
  from h1 byte h3 emitted bound live below show ?thesis
    by (simp add: refs md ex_dist_5)
qed

text \<open>
  The claim as the specification words it (unrounded confidence, emitted distance never
  above \<^verbatim>\<open>maxDistance\<close>) fails. For the color \<open>(0, 0, 0)\<close>, the one-entry palette
  \<open>(83, 0, 0)\<close> and \<^verbatim>\<open>maxDistance = 160\<close> the distance 83 is accepted and the formula gives
  \<open>48.125\<close>; the emitted confidence is the binary64 value next to \<open>48.12\<close>. For the one-entry
  palette \<open>(1, 2, 0)\<close> and \<^verbatim>\<open>maxDistance = 2291 / 1024\<close>, about \<open>2.2373\<close>, the distance
  \<open>\<surd>5 \<approx> 2.23607\<close> is accepted and the emitted distance is \<open>2.24\<close>, above the threshold. With
  the default \<^verbatim>\<open>maxDistance = 150\<close> and the one-entry palette \<open>(3, 4, 0)\<close> the distance is 5
  and the emitted confidence is \<open>96.67\<close>, where the formula gives \<open>96.666...\<close>.
\<close>

theorem matchColor_rounding_counterexample:
  "isDouble (maxDistance ex_wide_matcher)
   \<and> calculateColorDistance (ColorBox.rgb ex_black) (ReferenceColor.rgb (ex_reference 83 0 0))
      \<le> maxDistance ex_wide_matcher
   \<and> max 0 (min 100 (100 * (1 -
            calculateColorDistance (ColorBox.rgb ex_black) (ReferenceColor.rgb (ex_reference 83 0 0))
              / maxDistance ex_wide_matcher))) = 385 / 8
   \<and> MatchedReference.confidence (matchedReference (matchColor ex_wide_matcher ex_black))
      = Num (toDouble (4812 / 100))
   \<and> toDouble (4812 / 100) < 385 / 8 - 49 / 10000
   \<and> MatchedReference.confidence (matchedReference (matchColor ex_wide_matcher ex_black))
      \<noteq> Num (max 0 (min 100 (100 * (1 -
            calculateColorDistance (ColorBox.rgb ex_black) (ReferenceColor.rgb (ex_reference 83 0 0))
              / maxDistance ex_wide_matcher))))
   \<and> isDouble (maxDistance ex_tight_matcher)
   \<and> calculateColorDistance (ColorBox.rgb ex_black) (ReferenceColor.rgb (ex_reference 1 2 0))
      \<le> maxDistance ex_tight_matcher
   \<and> euclideanDistance (ColorBox.rgb ex_black) (ReferenceColor.rgb (ex_reference 1 2 0))
      \<le> maxDistance ex_tight_matcher
   \<and> maxDistance ex_tight_matcher
      < MatchedReference.distance (matchedReference (matchColor ex_tight_matcher ex_black))
   \<and> calculateColorDistance (ColorBox.rgb ex_black) (ReferenceColor.rgb (ex_reference 3 4 0))
      \<le> maxDistance (ex_matcher [ex_reference 3 4 0])
   \<and> MatchedReference.confidence (matchedReference (matchColor (ex_matcher [ex_reference 3 4 0]) ex_black))
      \<noteq> Num (max 0 (min 100 (100 * (1 -
            calculateColorDistance (ColorBox.rgb ex_black) (ReferenceColor.rgb (ex_reference 3 4 0))
              / maxDistance (ex_matcher [ex_reference 3 4 0])))))"
proof -
  have w: "maxDistance ex_wide_matcher = 160"
    by (simp add: ex_wide_matcher_def new_ColorMatcher_def)
  have formula: "max 0 (min 100 (100 * (1 - 83 / 160))) = (385 / 8 :: real)" by simp
  have wide:
    "isDouble (maxDistance ex_wide_matcher)
     \<and> calculateColorDistance (ColorBox.rgb ex_black) (ReferenceColor.rgb (ex_reference 83 0 0))
        \<le> maxDistance ex_wide_matcher
     \<and> max 0 (min 100 (100 * (1 -
            calculateColorDistance (ColorBox.rgb ex_black) (ReferenceColor.rgb (ex_reference 83 0 0))
              / maxDistance ex_wide_matcher))) = 385 / 8
     \<and> MatchedReference.confidence (matchedReference (matchColor ex_wide_matcher ex_black))
        = Num (toDouble (4812 / 100))
     \<and> toDouble (4812 / 100) < 385 / 8 - 49 / 10000
     \<and> MatchedReference.confidence (matchedReference (matchColor ex_wide_matcher ex_black))
        \<noteq> Num (max 0 (min 100 (100 * (1 -
            calculateColorDistance (ColorBox.rgb ex_black) (ReferenceColor.rgb (ex_reference 83 0 0))
              / maxDistance ex_wide_matcher))))"
    using ex_wide_below ex_doubles(2)
    by (simp only: ex_wide_eval ex_dist_83 w formula) simp
  have m: "maxDistance ex_tight_matcher = 2291 / 1024"
    by (simp add: ex_tight_matcher_def new_ColorMatcher_def)
  have "euclideanDistance (ColorBox.rgb ex_black) (ReferenceColor.rgb (ex_reference 1 2 0)) = sqrt 5"
    by (simp add: euclideanDistance_def ex_black_def ex_reference_def)
  moreover have "sqrt 5 \<le> 2291 / 1024" using sqrt_5_bounds by simp
  ultimately have tight:
    "isDouble (maxDistance ex_tight_matcher)
     \<and> calculateColorDistance (ColorBox.rgb ex_black) (ReferenceColor.rgb (ex_reference 1 2 0))
        \<le> maxDistance ex_tight_matcher
     \<and> euclideanDistance (ColorBox.rgb ex_black) (ReferenceColor.rgb (ex_reference 1 2 0))
        \<le> maxDistance ex_tight_matcher
     \<and> maxDistance ex_tight_matcher
        < MatchedReference.distance (matchedReference (matchColor ex_tight_matcher ex_black))"
    using ex_tight_within ex_tight_above ex_doubles(3)
    by (simp only: ex_tight_distance ex_dist_sqrt5 m)
  have d: "maxDistance (ex_matcher [ex_reference 3 4 0]) = 150"
    by (simp add: ex_matcher_def new_ColorMatcher_def)
  have "\<bar>(9667 / 100 :: real)\<bar> < 65536" by simp
  from toDouble_close16[OF this] have "\<bar>toDouble (9667 / 100) - 9667 / 100\<bar> \<le> 1 / 2 ^ 38" .
  moreover have "(1::real) / 2 ^ 38 \<le> 1 / 1000000" by simp
  ultimately have "\<bar>toDouble (9667 / 100) - 9667 / 100\<bar> \<le> 1 / 1000000" by (rule order_trans)
  then have "toDouble (9667 / 100) \<noteq> 290 / 3" by argo
  moreover have "max 0 (min 100 (100 * (1 - 5 / 150))) = (290 / 3 :: real)" by simp
  ultimately have default:
    "calculateColorDistance (ColorBox.rgb ex_black) (ReferenceColor.rgb (ex_reference 3 4 0))
        \<le> maxDistance (ex_matcher [ex_reference 3 4 0])
     \<and> MatchedReference.confidence (matchedReference (matchColor (ex_matcher [ex_reference 3 4 0]) ex_black))
        \<noteq> Num (max 0 (min 100 (100 * (1 -
            calculateColorDistance (ColorBox.rgb ex_black) (ReferenceColor.rgb (ex_reference 3 4 0))
              / maxDistance (ex_matcher [ex_reference 3 4 0])))))"
    by (simp only: ex_default_eval ex_dist_5 d) simp
  from wide tight default show ?thesis by blast
qed

subsection \<open>Unmatched colors\<close>



lemma matchSwatches_total:
  "snd (matchSwatches this sws) = sum_list (map (\<lambda>s. length (SwatchGroup.colors s)) sws)"
  by (induction sws) (auto split: prod.splits)





section \<open>Properties of the pixel predicates\<close>

text \<open>
  Claim C3, as the code has it. \<^verbatim>\<open>SwatchExtractor.isWhiteOrNearWhite\<close> is true exactly when
  all three channels exceed 240. \<^verbatim>\<open>ReferenceColorExtractor.isWhiteOrNearWhite\<close> is true
  exactly when the mean of the three channels exceeds 240, that is when their sum exceeds
  720; a pixel that the first predicate accepts is accepted by the second.
\<close>

theorem isWhiteOrNearWhite_characterisation:
  "isWhiteOrNearWhite color = (240 < rgb_r color \<and> 240 < rgb_g color \<and> 240 < rgb_b color)
   \<and> ref_isWhiteOrNearWhite color = (720 < rgb_r color + rgb_g color + rgb_b color)
   \<and> (isWhiteOrNearWhite color \<longrightarrow> ref_isWhiteOrNearWhite color)"
proof -
  have sw: "isWhiteOrNearWhite color = (240 < rgb_r color \<and> 240 < rgb_g color \<and> 240 < rgb_b color)"
    by (simp add: isWhiteOrNearWhite_def)
  have rf: "ref_isWhiteOrNearWhite color = (720 < rgb_r color + rgb_g color + rgb_b color)"
  proof -
    have "(720 < real_of_int (rgb_r color + rgb_g color + rgb_b color))
        = (720 < rgb_r color + rgb_g color + rgb_b color)"
      by linarith
    then show ?thesis
      by (simp add: ref_isWhiteOrNearWhite_def)
  qed
  from sw rf show ?thesis by auto
qed

theorem isWhiteOrNearWhite_characterisation_witness:
  "isWhiteOrNearWhite \<lparr>rgb_r = 255, rgb_g = 250, rgb_b = 241\<rparr>
   \<and> ref_isWhiteOrNearWhite \<lparr>rgb_r = 255, rgb_g = 250, rgb_b = 241\<rparr>"
  using isWhiteOrNearWhite_characterisation[of "\<lparr>rgb_r = 255, rgb_g = 250, rgb_b = 241\<rparr>"]
  by simp

text \<open>
  The pixel \<open>(255, 255, 215)\<close> has mean \<open>241.67\<close>: the reference extractor's predicate
  calls it background although its blue channel does not exceed 240.
\<close>

theorem ref_isWhiteOrNearWhite_counterexample:
  "ref_isWhiteOrNearWhite ex_pale_yellow
   \<and> \<not> (240 < rgb_r ex_pale_yellow \<and> 240 < rgb_g ex_pale_yellow \<and> 240 < rgb_b ex_pale_yellow)
   \<and> \<not> isWhiteOrNearWhite ex_pale_yellow"
  by (simp add: ref_isWhiteOrNearWhite_def isWhiteOrNearWhite_def ex_pale_yellow_def)

section \<open>Properties of the validator\<close>

subsection \<open>The synthetic fallback is always flagged\<close>

lemma str_includes_prefix: "str_includes (sub @ rest) sub"
proof (cases "sub @ rest")
  case Nil
  then show ?thesis by simp
next
  case (Cons c cs)
  have "prefix sub (sub @ rest)" by simp
  with Cons show ?thesis by simp
qed

text \<open>
  Claim C5. The entry built by the final fallback branch of \<^verbatim>\<open>extractColorInfoEnhanced\<close>
  (code from \<^verbatim>\<open>generateFallbackColorCode\<close>, name \<^verbatim>\<open>Color at <x>\<close>) is classified as an
  OCR failure by \<^verbatim>\<open>ColorValidator.isOCRFailure\<close>, for every region box and every sampled
  color. The name decides it: at \<open>x = 1900\<close> the code is \<^verbatim>\<open>C10008\<close>, which the pattern
  \<^verbatim>\<open>/^C\d{4}$/\<close> does not match, and the entry is flagged all the same.
\<close>

theorem finalFallback_isOCRFailure:
  "isOCRFailure (finalFallback bbox regionColor)"
  by (simp add: isOCRFailure_def finalFallback_def hasGenericName_def str_includes_prefix Let_def)

theorem finalFallback_isOCRFailure_witness:
  "isOCRFailure (finalFallback \<lparr>box_x = 1900, box_y = 10, box_width = 30, box_height = 20\<rparr>
      \<lparr>rgb_r = 2, rgb_g = 1, rgb_b = 5\<rparr>)
   \<and> ReferenceColor.colorCode (finalFallback \<lparr>box_x = 1900, box_y = 10, box_width = 30, box_height = 20\<rparr>
      \<lparr>rgb_r = 2, rgb_g = 1, rgb_b = 5\<rparr>) = ''C10008''
   \<and> \<not> hasFallbackCode ''C10008''
   \<and> ReferenceColor.colorName (finalFallback \<lparr>box_x = 1900, box_y = 10, box_width = 30, box_height = 20\<rparr>
      \<lparr>rgb_r = 2, rgb_g = 1, rgb_b = 5\<rparr>) = ''Color at 1900''"
proof -
  have code: "generateFallbackColorCode 1900 \<lparr>rgb_r = 2, rgb_g = 1, rgb_b = 5\<rparr> = ''C10008''"
    by code_simp
  have nm: "toString 10 1900 = ''1900''"
    by code_simp
  have nf: "\<not> hasFallbackCode ''C10008''"
    by (simp add: hasFallbackCode_def)
  show ?thesis
    using finalFallback_isOCRFailure[of "\<lparr>box_x = 1900, box_y = 10, box_width = 30, box_height = 20\<rparr>"
        "\<lparr>rgb_r = 2, rgb_g = 1, rgb_b = 5\<rparr>"] code nm nf
    by (simp add: finalFallback_def Let_def)
qed

subsection \<open>The correction loops\<close>

lemma findExpectedLoop_first:
  "findExpectedLoop pos tbl = Some e \<Longrightarrow>
     \<exists>pre post. tbl = pre @ e # post \<and> \<bar>pos - position e\<bar> \<le> 200
        \<and> (\<forall>p\<in>set pre. \<not> \<bar>pos - position p\<bar> \<le> 200)"
proof (induction tbl)
  case Nil
  then show ?case by simp
next
  case (Cons a tbl)
  show ?case
  proof (cases "\<bar>pos - position a\<bar> \<le> 200")
    case True
    with Cons.prems have "e = a" by simp
    with True show ?thesis
      by (intro exI[of _ "[]"] exI[of _ tbl]) simp
  next
    case False
    with Cons.prems have "findExpectedLoop pos tbl = Some e" by simp
    from Cons.IH[OF this] obtain pre post where
      "tbl = pre @ e # post" "\<bar>pos - position e\<bar> \<le> 200" "\<forall>p\<in>set pre. \<not> \<bar>pos - position p\<bar> \<le> 200"
      by blast
    with False show ?thesis
      by (intro exI[of _ "a # pre"] exI[of _ post]) simp
  qed
qed

lemma findExpectedLoop_None:
  "findExpectedLoop pos tbl = None \<Longrightarrow> \<forall>p\<in>set tbl. \<not> \<bar>pos - position p\<bar> \<le> 200"
  by (induction tbl) (auto split: if_splits)

lemma validateLoop_append:
  "validateLoop es i acc = acc @ validateLoop es i []"
proof (induction es arbitrary: i acc)
  case Nil
  then show ?case by simp
next
  case (Cons e es)
  show ?case
  proof (cases "correctionFor i e")
    case None
    then show ?thesis using Cons.IH[of "i + 1" acc] by simp
  next
    case (Some c)
    then show ?thesis
      using Cons.IH[of "i + 1" "acc @ [c]"] Cons.IH[of "i + 1" "[c]"] by simp
  qed
qed

lemma validateLoop_set:
  "set (validateLoop es i []) = {c. \<exists>k<length es. correctionFor (i + k) (es ! k) = Some c}"
proof (induction es arbitrary: i)
  case Nil
  then show ?case by simp
next
  case (Cons e es)
  have step: "set (validateLoop (e # es) i []) =
      set_option (correctionFor i e) \<union> set (validateLoop es (i + 1) [])"
    using validateLoop_append[of es "i + 1" "[the (correctionFor i e)]"]
    by (cases "correctionFor i e") auto
  have "{c. \<exists>k<length (e # es). correctionFor (i + k) ((e # es) ! k) = Some c}
      = set_option (correctionFor i e) \<union> {c. \<exists>k<length es. correctionFor (i + 1 + k) (es ! k) = Some c}"
  proof (intro set_eqI iffI)
    fix c assume "c \<in> {c. \<exists>k<length (e # es). correctionFor (i + k) ((e # es) ! k) = Some c}"
    then obtain k where k: "k < length (e # es)" "correctionFor (i + k) ((e # es) ! k) = Some c" by blast
    show "c \<in> set_option (correctionFor i e) \<union> {c. \<exists>k<length es. correctionFor (i + 1 + k) (es ! k) = Some c}"
    proof (cases k)
      case 0
      with k show ?thesis by simp
    next
      case (Suc j)
      with k have "j < length es" "correctionFor (i + 1 + j) (es ! j) = Some c" by simp_all
      then show ?thesis by blast
    qed
  next
    fix c assume "c \<in> set_option (correctionFor i e) \<union> {c. \<exists>k<length es. correctionFor (i + 1 + k) (es ! k) = Some c}"
    then consider "correctionFor i e = Some c"
      | k where "k < length es" "correctionFor (i + 1 + k) (es ! k) = Some c"
      by auto
    then show "c \<in> {c. \<exists>k<length (e # es). correctionFor (i + k) ((e # es) ! k) = Some c}"
    proof cases
      case 1
      then have "0 < length (e # es) \<and> correctionFor (i + 0) ((e # es) ! 0) = Some c" by simp
      then show ?thesis by blast
    next
      case 2
      then have "Suc k < length (e # es) \<and> correctionFor (i + Suc k) ((e # es) ! Suc k) = Some c" by simp
      then show ?thesis by blast
    qed
  qed
  with step Cons.IH[of "i + 1"] show ?case by simp
qed

lemma corrections_set:
  "set (corrections (validateAndCorrect es)) = {c. \<exists>k<length es. correctionFor k (es ! k) = Some c}"
  using validateLoop_set[of es 0] by (simp add: validateAndCorrect_def Let_def)

lemma correctionFor_index: "correctionFor i e = Some c \<Longrightarrow> originalIndex c = i"
  by (auto simp: correctionFor_def split: if_splits option.splits)

lemma correctionFor_frame:
  "correctionFor i e = Some c \<Longrightarrow>
     ReferenceColor.rgb (correctedColor c) = ReferenceColor.rgb e
   \<and> ReferenceColor.hex (correctedColor c) = ReferenceColor.hex e
   \<and> ReferenceColor.pantoneColor (correctedColor c) = ReferenceColor.pantoneColor e
   \<and> ReferenceColor.boundingBox (correctedColor c) = ReferenceColor.boundingBox e"
  by (auto simp: correctionFor_def split: if_splits option.splits)


lemma correctionFor_replaces:
  "correctionFor i e = Some c \<Longrightarrow>
     correctedColor c = e\<lparr>ReferenceColor.colorCode := ReferenceColor.colorCode (correctedColor c),
                          ReferenceColor.colorName := ReferenceColor.colorName (correctedColor c)\<rparr>"
  by (auto simp: correctionFor_def split: if_splits option.splits)

lemma arrayAssign_length: "length xs \<le> length (arrayAssign xs i v)"
  by (simp add: arrayAssign_def)

lemma arrayAssign_length_in: "i < length xs \<Longrightarrow> length (arrayAssign xs i v) = length xs"
  by (simp add: arrayAssign_def)

lemma arrayAssign_other: "k < length xs \<Longrightarrow> k \<noteq> i \<Longrightarrow> arrayAssign xs i v ! k = xs ! k"
  by (simp add: arrayAssign_def nth_append)

lemma arrayAssign_same: "i < length xs \<Longrightarrow> arrayAssign xs i v ! i = Some v"
  by (simp add: arrayAssign_def)

lemma applyLoop_frame:
  "k < length acc \<Longrightarrow> k \<notin> originalIndex ` set cs \<Longrightarrow>
     k < length (applyLoop acc cs) \<and> applyLoop acc cs ! k = acc ! k"
proof (induction cs arbitrary: acc)
  case Nil
  then show ?case by simp
next
  case (Cons c cs)
  let ?acc = "arrayAssign acc (originalIndex c) (correctedColor c)"
  from Cons.prems have k: "k < length ?acc" "k \<noteq> originalIndex c" "k \<notin> originalIndex ` set cs"
    using arrayAssign_length[of acc "originalIndex c" "correctedColor c"] by auto
  from Cons.IH[OF k(1) k(3)] arrayAssign_other[OF Cons.prems(1) k(2)]
  show ?case by simp
qed

lemma applyLoop_length:
  "\<forall>c\<in>set cs. originalIndex c < length acc \<Longrightarrow> length (applyLoop acc cs) = length acc"
proof (induction cs arbitrary: acc)
  case Nil
  then show ?case by simp
next
  case (Cons c cs)
  let ?acc = "arrayAssign acc (originalIndex c) (correctedColor c)"
  from Cons.prems have len: "length ?acc = length acc"
    by (simp add: arrayAssign_length_in)
  with Cons.prems have "\<forall>c\<in>set cs. originalIndex c < length ?acc" by simp
  from Cons.IH[OF this] len show ?case by simp
qed

lemma applyLoop_assigned:
  assumes "k < length acc"
    and "\<exists>c\<in>set cs. originalIndex c = k"
    and "\<forall>c\<in>set cs. originalIndex c = k \<longrightarrow> correctedColor c = v"
  shows "applyLoop acc cs ! k = Some v"
  using assms
proof (induction cs arbitrary: acc)
  case Nil
  then show ?case by simp
next
  case (Cons c cs)
  let ?acc = "arrayAssign acc (originalIndex c) (correctedColor c)"
  have len: "k < length ?acc"
    using Cons.prems(1) arrayAssign_length[of acc "originalIndex c" "correctedColor c"] by simp
  show ?case
  proof (cases "\<exists>c'\<in>set cs. originalIndex c' = k")
    case True
    with Cons.IH[OF len] Cons.prems(3) show ?thesis by simp
  next
    case False
    with Cons.prems(2) have here: "originalIndex c = k" by auto
    with Cons.prems(3) have v: "correctedColor c = v" by simp
    from False have "k \<notin> originalIndex ` set cs" by auto
    from applyLoop_frame[OF len this] have "applyLoop ?acc cs ! k = ?acc ! k" by simp
    with here v Cons.prems(1) show ?thesis by (simp add: arrayAssign_same)
  qed
qed

lemma applyLoop_invariant:
  assumes "\<forall>k<length acc. \<exists>e. acc ! k = Some e \<and> P k e"
    and "\<forall>c\<in>set cs. originalIndex c < length acc \<and> P (originalIndex c) (correctedColor c)"
  shows "length (applyLoop acc cs) = length acc
     \<and> (\<forall>k<length acc. \<exists>e. applyLoop acc cs ! k = Some e \<and> P k e)"
  using assms
proof (induction cs arbitrary: acc)
  case Nil
  then show ?case by simp
next
  case (Cons c cs)
  let ?acc = "arrayAssign acc (originalIndex c) (correctedColor c)"
  from Cons.prems(2) have c: "originalIndex c < length acc" "P (originalIndex c) (correctedColor c)"
    by simp_all
  then have len: "length ?acc = length acc" by (simp add: arrayAssign_length_in)
  have inv: "\<forall>k<length ?acc. \<exists>e. ?acc ! k = Some e \<and> P k e"
  proof (intro allI impI)
    fix k assume k: "k < length ?acc"
    show "\<exists>e. ?acc ! k = Some e \<and> P k e"
    proof (cases "k = originalIndex c")
      case True
      with c show ?thesis by (simp add: arrayAssign_same)
    next
      case False
      with k len Cons.prems(1) show ?thesis by (simp add: arrayAssign_other)
    qed
  qed
  from Cons.prems(2) len have "\<forall>c\<in>set cs. originalIndex c < length ?acc \<and> P (originalIndex c) (correctedColor c)"
    by simp
  from Cons.IH[OF inv this] len show ?case by simp
qed

lemma corrections_index_unique:
  assumes "c \<in> set (corrections (validateAndCorrect es))" and "originalIndex c = k"
  shows "k < length es \<and> correctionFor k (es ! k) = Some c"
proof -
  from assms(1) obtain j where j: "j < length es" "correctionFor j (es ! j) = Some c"
    by (auto simp: corrections_set)
  from correctionFor_index[OF j(2)] assms(2) have "j = k" by simp
  with j show ?thesis by simp
qed

lemma findExpectedLoop_complete:
  "tbl = pre @ g # post \<Longrightarrow> \<bar>pos - position g\<bar> \<le> 200 \<Longrightarrow>
     \<forall>p\<in>set pre. \<not> \<bar>pos - position p\<bar> \<le> 200 \<Longrightarrow> findExpectedLoop pos tbl = Some g"
  by (induction pre arbitrary: tbl) auto

subsection \<open>Evaluation at the concrete entries\<close>

lemma ex_entry_lookup:
  "findExpectedLoop 633 expectedColors = Some \<lparr>code = ''B10119'', name = ''Gardenia'', position = 447\<rparr>"
  by (simp add: expectedColors_def)

lemma ex_entry_flagged: "hasFallbackCode ''C1234''"
  by (simp add: hasFallbackCode_def isDigit_def)

lemma ex_entry_correction:
  "correctionFor 0 ex_entry = Some \<lparr>originalIndex = 0,
      correctedColor = ex_entry\<lparr>ReferenceColor.colorCode := ''B10119'', ReferenceColor.colorName := ''Gardenia''\<rparr>,
      reason = ''OCR failed, applied correction based on position. Expected B10119, got C1234.''\<rparr>"
  using ex_entry_lookup ex_entry_flagged
  by (simp add: correctionFor_def isOCRFailure_def findExpectedColorByPosition_def ex_entry_def)

lemma ex_navy_kept: "correctionFor i ex_navy = None"
  by (simp add: correctionFor_def isOCRFailure_def hasFallbackCode_def hasGenericName_def ex_navy_def)

lemma ex_pair_corrections:
  "corrections (validateAndCorrect [ex_entry, ex_navy])
      = [\<lparr>originalIndex = 0,
          correctedColor = ex_entry\<lparr>ReferenceColor.colorCode := ''B10119'', ReferenceColor.colorName := ''Gardenia''\<rparr>,
          reason = ''OCR failed, applied correction based on position. Expected B10119, got C1234.''\<rparr>]"
  using ex_entry_correction ex_navy_kept[of 1] by (simp add: validateAndCorrect_def)

subsection \<open>Which entries are corrected, and to what\<close>

text \<open>
  Claim C4, as the code has it. An entry whose code matches \<^verbatim>\<open>/^C\d{4}$/\<close> and whose box
  \<open>x\<close> lies within 200 of some ground-truth position is corrected to the code and name of
  the first table entry, in table order, whose position is within 200 of \<open>x\<close>: the
  correction is recorded at the entry's index and \<^verbatim>\<open>applyCorrections\<close> installs it. An
  entry with a genuine descriptive name (at least 3 characters, not \<^verbatim>\<open>Unknown\<close>, not
  containing \<^verbatim>\<open>Color at \<close>) whose code does not match the fallback pattern is never
  corrected, wherever it stands.
\<close>

theorem validateAndCorrect_first_in_tolerance:
  "i < length es \<longrightarrow>
     (hasFallbackCode (ReferenceColor.colorCode (es ! i))
        \<and> (\<exists>g\<in>set expectedColors. \<bar>box_x (ReferenceColor.boundingBox (es ! i)) - position g\<bar> \<le> 200)
      \<longrightarrow> (\<exists>pre g post. expectedColors = pre @ g # post
            \<and> \<bar>box_x (ReferenceColor.boundingBox (es ! i)) - position g\<bar> \<le> 200
            \<and> (\<forall>p\<in>set pre. \<not> \<bar>box_x (ReferenceColor.boundingBox (es ! i)) - position p\<bar> \<le> 200)
            \<and> \<lparr>originalIndex = i,
                correctedColor = (es ! i)\<lparr>ReferenceColor.colorCode := code g, ReferenceColor.colorName := name g\<rparr>,
                reason = ''OCR failed, applied correction based on position. Expected ''
                     @ code g @ '', got '' @ ReferenceColor.colorCode (es ! i) @ ''.''\<rparr>
                \<in> set (corrections (validateAndCorrect es))
            \<and> applyCorrections es (corrections (validateAndCorrect es)) ! i
                = Some ((es ! i)\<lparr>ReferenceColor.colorCode := code g, ReferenceColor.colorName := name g\<rparr>)))
   \<and> (3 \<le> length (ReferenceColor.colorName (es ! i))
        \<and> ReferenceColor.colorName (es ! i) \<noteq> ''Unknown''
        \<and> \<not> str_includes (ReferenceColor.colorName (es ! i)) ''Color at ''
        \<and> \<not> hasFallbackCode (ReferenceColor.colorCode (es ! i))
      \<longrightarrow> i \<notin> originalIndex ` set (corrections (validateAndCorrect es))
          \<and> applyCorrections es (corrections (validateAndCorrect es)) ! i = Some (es ! i))"
proof (intro impI conjI)
  let ?e = "es ! i"
  let ?px = "box_x (ReferenceColor.boundingBox ?e)"
  let ?cs = "corrections (validateAndCorrect es)"
  assume i: "i < length es"
  assume "hasFallbackCode (ReferenceColor.colorCode ?e)
        \<and> (\<exists>g\<in>set expectedColors. \<bar>?px - position g\<bar> \<le> 200)"
  then have flagged: "isOCRFailure ?e" and near: "\<exists>g\<in>set expectedColors. \<bar>?px - position g\<bar> \<le> 200"
    by (simp_all add: isOCRFailure_def)
  from near findExpectedLoop_None[of ?px expectedColors]
  obtain g where g: "findExpectedColorByPosition ?px = Some g"
    by (cases "findExpectedColorByPosition ?px") (auto simp: findExpectedColorByPosition_def)
  from findExpectedLoop_first[of ?px expectedColors g] g obtain pre post where
    first: "expectedColors = pre @ g # post" "\<bar>?px - position g\<bar> \<le> 200"
      "\<forall>p\<in>set pre. \<not> \<bar>?px - position p\<bar> \<le> 200"
    by (auto simp: findExpectedColorByPosition_def)
  let ?c = "\<lparr>originalIndex = i,
                correctedColor = ?e\<lparr>ReferenceColor.colorCode := code g, ReferenceColor.colorName := name g\<rparr>,
                reason = ''OCR failed, applied correction based on position. Expected ''
                     @ code g @ '', got '' @ ReferenceColor.colorCode ?e @ ''.''\<rparr>"
  have cf: "correctionFor i ?e = Some ?c"
    using flagged g by (simp add: correctionFor_def)
  with i have mem: "?c \<in> set ?cs"
    by (auto simp: corrections_set)
  have uniq: "\<forall>c\<in>set ?cs. originalIndex c = i \<longrightarrow> correctedColor c = correctedColor ?c"
    using corrections_index_unique[of _ es i] cf by auto
  have ex: "\<exists>c\<in>set ?cs. originalIndex c = i"
    using mem by force
  have "applyLoop (map Some es) ?cs ! i = Some (correctedColor ?c)"
    by (rule applyLoop_assigned[OF _ ex uniq]) (simp add: i)
  then have app: "applyCorrections es ?cs ! i
      = Some (?e\<lparr>ReferenceColor.colorCode := code g, ReferenceColor.colorName := name g\<rparr>)"
    by (simp add: applyCorrections_def)
  from first mem app
  show "\<exists>pre g post. expectedColors = pre @ g # post
            \<and> \<bar>?px - position g\<bar> \<le> 200
            \<and> (\<forall>p\<in>set pre. \<not> \<bar>?px - position p\<bar> \<le> 200)
            \<and> \<lparr>originalIndex = i,
                correctedColor = ?e\<lparr>ReferenceColor.colorCode := code g, ReferenceColor.colorName := name g\<rparr>,
                reason = ''OCR failed, applied correction based on position. Expected ''
                     @ code g @ '', got '' @ ReferenceColor.colorCode ?e @ ''.''\<rparr>
                \<in> set ?cs
            \<and> applyCorrections es ?cs ! i
                = Some (?e\<lparr>ReferenceColor.colorCode := code g, ReferenceColor.colorName := name g\<rparr>)"
    by blast
next
  let ?e = "es ! i"
  let ?cs = "corrections (validateAndCorrect es)"
  assume i: "i < length es"
  assume genuine: "3 \<le> length (ReferenceColor.colorName ?e)
        \<and> ReferenceColor.colorName ?e \<noteq> ''Unknown''
        \<and> \<not> str_includes (ReferenceColor.colorName ?e) ''Color at ''
        \<and> \<not> hasFallbackCode (ReferenceColor.colorCode ?e)"
  then have "\<not> isOCRFailure ?e"
    by (simp add: isOCRFailure_def hasGenericName_def)
  then have none: "correctionFor i ?e = None"
    by (simp add: correctionFor_def)
  show notin: "i \<notin> originalIndex ` set ?cs"
  proof
    assume "i \<in> originalIndex ` set ?cs"
    then obtain c where "c \<in> set ?cs" "originalIndex c = i" by auto
    from corrections_index_unique[OF this] none show False by simp
  qed
  from applyLoop_frame[of i "map Some es" ?cs] i notin
  show "applyCorrections es ?cs ! i = Some ?e"
    by (simp add: applyCorrections_def)
qed

theorem validateAndCorrect_first_in_tolerance_witness:
  "hasFallbackCode (ReferenceColor.colorCode ex_entry)
   \<and> \<lparr>code = ''B20111'', name = ''Navy'', position = 633\<rparr> \<in> set expectedColors
   \<and> \<bar>box_x (ReferenceColor.boundingBox ex_entry) - 633\<bar> \<le> 200
   \<and> applyCorrections [ex_entry, ex_navy] (corrections (validateAndCorrect [ex_entry, ex_navy])) ! 0
      = Some (ex_entry\<lparr>ReferenceColor.colorCode := ''B10119'', ReferenceColor.colorName := ''Gardenia''\<rparr>)
   \<and> 3 \<le> length (ReferenceColor.colorName ex_navy)
   \<and> ReferenceColor.colorName ex_navy \<noteq> ''Unknown''
   \<and> \<not> str_includes (ReferenceColor.colorName ex_navy) ''Color at ''
   \<and> \<not> hasFallbackCode (ReferenceColor.colorCode ex_navy)
   \<and> 1 \<notin> originalIndex ` set (corrections (validateAndCorrect [ex_entry, ex_navy]))
   \<and> applyCorrections [ex_entry, ex_navy] (corrections (validateAndCorrect [ex_entry, ex_navy])) ! 1
      = Some ex_navy"
proof -
  let ?es = "[ex_entry, ex_navy]"
  let ?cs = "corrections (validateAndCorrect ?es)"
  have e0: "?es ! 0 = ex_entry" and e1: "?es ! 1 = ex_navy" by simp_all
  have px: "box_x (ReferenceColor.boundingBox ex_entry) = 633"
    and cd: "ReferenceColor.colorCode ex_entry = ''C1234''"
    by (simp_all add: ex_entry_def)
  have tbl: "\<lparr>code = ''B20111'', name = ''Navy'', position = 633\<rparr> \<in> set expectedColors"
    by (simp add: expectedColors_def)
  have hyp0: "hasFallbackCode (ReferenceColor.colorCode (?es ! 0))
        \<and> (\<exists>g\<in>set expectedColors. \<bar>box_x (ReferenceColor.boundingBox (?es ! 0)) - position g\<bar> \<le> 200)"
    unfolding e0 px cd using ex_entry_flagged tbl by force
  have nv: "ReferenceColor.colorName ex_navy = ''Navy Blue''" "ReferenceColor.colorCode ex_navy = ''B20111''"
    by (simp_all add: ex_navy_def)
  have hyp1: "3 \<le> length (ReferenceColor.colorName (?es ! 1))
        \<and> ReferenceColor.colorName (?es ! 1) \<noteq> ''Unknown''
        \<and> \<not> str_includes (ReferenceColor.colorName (?es ! 1)) ''Color at ''
        \<and> \<not> hasFallbackCode (ReferenceColor.colorCode (?es ! 1))"
    unfolding e1 nv by (simp add: hasFallbackCode_def)
  have i0: "0 < length ?es" and i1: "1 < length ?es" by simp_all
  from validateAndCorrect_first_in_tolerance[of 0 ?es, THEN mp, OF i0, THEN conjunct1, THEN mp, OF hyp0]
  obtain pre g post where g: "expectedColors = pre @ g # post"
      "\<bar>box_x (ReferenceColor.boundingBox (?es ! 0)) - position g\<bar> \<le> 200"
      "\<forall>p\<in>set pre. \<not> \<bar>box_x (ReferenceColor.boundingBox (?es ! 0)) - position p\<bar> \<le> 200"
    and app: "applyCorrections ?es ?cs ! 0
                = Some ((?es ! 0)\<lparr>ReferenceColor.colorCode := code g, ReferenceColor.colorName := name g\<rparr>)"
    by blast
  from findExpectedLoop_complete[OF g] have "findExpectedLoop 633 expectedColors = Some g"
    by (simp only: e0 px)
  with ex_entry_lookup have "g = \<lparr>code = ''B10119'', name = ''Gardenia'', position = 447\<rparr>"
    by simp
  with app have r0: "applyCorrections ?es ?cs ! 0
      = Some (ex_entry\<lparr>ReferenceColor.colorCode := ''B10119'', ReferenceColor.colorName := ''Gardenia''\<rparr>)"
    by simp
  from validateAndCorrect_first_in_tolerance[of 1 ?es, THEN mp, OF i1, THEN conjunct2, THEN mp, OF hyp1]
  have r1: "1 \<notin> originalIndex ` set ?cs" "applyCorrections ?es ?cs ! 1 = Some ex_navy"
    by simp_all
  from hyp0 hyp1 r0 r1 tbl show ?thesis
    unfolding e0 e1 px by simp
qed

text \<open>
  The entry with code \<^verbatim>\<open>C1234\<close>, name \<^verbatim>\<open>Deep Ocean Blue\<close> and \<open>x = 633\<close> stands exactly at
  the table position of Navy and has a descriptive name. It is corrected all the same, and
  to Gardenia (position 447), the first table entry within 200 of 633.
\<close>

theorem validateAndCorrect_counterexample:
  "hasFallbackCode (ReferenceColor.colorCode ex_entry)
   \<and> \<lparr>code = ''B20111'', name = ''Navy'', position = 633\<rparr> \<in> set expectedColors
   \<and> \<bar>box_x (ReferenceColor.boundingBox ex_entry) - 633\<bar> \<le> 200
   \<and> 3 \<le> length (ReferenceColor.colorName ex_entry)
   \<and> ReferenceColor.colorName ex_entry \<noteq> ''Unknown''
   \<and> \<not> str_includes (ReferenceColor.colorName ex_entry) ''Color at ''
   \<and> corrections (validateAndCorrect [ex_entry])
      = [\<lparr>originalIndex = 0,
          correctedColor = ex_entry\<lparr>ReferenceColor.colorCode := ''B10119'', ReferenceColor.colorName := ''Gardenia''\<rparr>,
          reason = ''OCR failed, applied correction based on position. Expected B10119, got C1234.''\<rparr>]
   \<and> applyCorrections [ex_entry] (corrections (validateAndCorrect [ex_entry]))
      = [Some (ex_entry\<lparr>ReferenceColor.colorCode := ''B10119'', ReferenceColor.colorName := ''Gardenia''\<rparr>)]"
proof -
  have cs: "corrections (validateAndCorrect [ex_entry])
      = [\<lparr>originalIndex = 0,
          correctedColor = ex_entry\<lparr>ReferenceColor.colorCode := ''B10119'', ReferenceColor.colorName := ''Gardenia''\<rparr>,
          reason = ''OCR failed, applied correction based on position. Expected B10119, got C1234.''\<rparr>]"
    using ex_entry_correction by (simp add: validateAndCorrect_def)
  have nm: "ReferenceColor.colorName ex_entry = ''Deep Ocean Blue''" "ReferenceColor.colorCode ex_entry = ''C1234''"
    "box_x (ReferenceColor.boundingBox ex_entry) = 633"
    by (simp_all add: ex_entry_def)
  have inc: "\<not> str_includes ''Deep Ocean Blue'' ''Color at ''"
    by simp
  have tbl: "\<lparr>code = ''B20111'', name = ''Navy'', position = 633\<rparr> \<in> set expectedColors"
    by (simp add: expectedColors_def)
  show ?thesis
    unfolding cs nm using inc tbl ex_entry_flagged
    by (simp add: applyCorrections_def arrayAssign_def)
qed

subsection \<open>What applying corrections changes\<close>

text \<open>
  Claim C9. The corrections that reach \<^verbatim>\<open>applyCorrections\<close> are those that
  \<^verbatim>\<open>validateAndCorrect\<close> built for the same entry list. The entry at every index that no
  correction names is equal to the input entry (that much holds for every correction list).
  The result has the length of the input, and every entry of it keeps the \<^verbatim>\<open>rgb\<close>,
  \<^verbatim>\<open>hex\<close>, \<^verbatim>\<open>pantoneColor\<close> and \<^verbatim>\<open>boundingBox\<close> of the input entry at its index. The
  entry at a corrected index is the entry the correction carries, which is the input entry
  with \<^verbatim>\<open>colorCode\<close> and \<^verbatim>\<open>colorName\<close> replaced and nothing else.
\<close>

theorem applyCorrections_frame:
  "(\<forall>k<length es. k \<notin> originalIndex ` set cs \<longrightarrow> applyCorrections es cs ! k = Some (es ! k))
   \<and> length (applyCorrections es (corrections (validateAndCorrect es))) = length es
   \<and> (\<forall>k<length es. \<exists>e. applyCorrections es (corrections (validateAndCorrect es)) ! k = Some e
        \<and> ReferenceColor.rgb e = ReferenceColor.rgb (es ! k)
        \<and> ReferenceColor.hex e = ReferenceColor.hex (es ! k)
        \<and> ReferenceColor.pantoneColor e = ReferenceColor.pantoneColor (es ! k)
        \<and> ReferenceColor.boundingBox e = ReferenceColor.boundingBox (es ! k))
   \<and> (\<forall>c\<in>set (corrections (validateAndCorrect es)).
        originalIndex c < length es
        \<and> applyCorrections es (corrections (validateAndCorrect es)) ! originalIndex c
            = Some (correctedColor c)
        \<and> correctedColor c
            = (es ! originalIndex c)
                \<lparr>ReferenceColor.colorCode := ReferenceColor.colorCode (correctedColor c),
                 ReferenceColor.colorName := ReferenceColor.colorName (correctedColor c)\<rparr>)"
proof -
  let ?vs = "corrections (validateAndCorrect es)"
  let ?P = "\<lambda>k e. ReferenceColor.rgb e = ReferenceColor.rgb (es ! k)
        \<and> ReferenceColor.hex e = ReferenceColor.hex (es ! k)
        \<and> ReferenceColor.pantoneColor e = ReferenceColor.pantoneColor (es ! k)
        \<and> ReferenceColor.boundingBox e = ReferenceColor.boundingBox (es ! k)"
  have frame: "\<forall>k<length es. k \<notin> originalIndex ` set cs \<longrightarrow> applyCorrections es cs ! k = Some (es ! k)"
    using applyLoop_frame[of _ "map Some es" cs] by (simp add: applyCorrections_def)
  have start: "\<forall>k<length (map Some es). \<exists>e. map Some es ! k = Some e \<and> ?P k e"
    by simp
  have each: "\<forall>c\<in>set ?vs. originalIndex c < length (map Some es) \<and> ?P (originalIndex c) (correctedColor c)"
  proof
    fix c assume "c \<in> set ?vs"
    from corrections_index_unique[OF this refl]
    have "originalIndex c < length es" "correctionFor (originalIndex c) (es ! originalIndex c) = Some c"
      by simp_all
    with correctionFor_frame[of "originalIndex c" "es ! originalIndex c" c]
    show "originalIndex c < length (map Some es) \<and> ?P (originalIndex c) (correctedColor c)"
      by simp
  qed
  have installed: "\<forall>c\<in>set ?vs. originalIndex c < length es
        \<and> applyCorrections es ?vs ! originalIndex c = Some (correctedColor c)
        \<and> correctedColor c
            = (es ! originalIndex c)
                \<lparr>ReferenceColor.colorCode := ReferenceColor.colorCode (correctedColor c),
                 ReferenceColor.colorName := ReferenceColor.colorName (correctedColor c)\<rparr>"
  proof
    fix c assume c: "c \<in> set ?vs"
    let ?k = "originalIndex c"
    from corrections_index_unique[OF c refl]
    have k: "?k < length es" and made: "correctionFor ?k (es ! ?k) = Some c"
      by simp_all
    have only: "\<forall>c'\<in>set ?vs. originalIndex c' = ?k \<longrightarrow> correctedColor c' = correctedColor c"
    proof (intro ballI impI)
      fix c' assume "c' \<in> set ?vs" "originalIndex c' = ?k"
      from corrections_index_unique[OF this] made show "correctedColor c' = correctedColor c"
        by simp
    qed
    have "\<exists>c'\<in>set ?vs. originalIndex c' = ?k" using c by blast
    from applyLoop_assigned[of ?k "map Some es" ?vs "correctedColor c", OF _ this only] k
    have "applyCorrections es ?vs ! ?k = Some (correctedColor c)"
      by (simp add: applyCorrections_def)
    with k correctionFor_replaces[OF made]
    show "?k < length es \<and> applyCorrections es ?vs ! ?k = Some (correctedColor c)
        \<and> correctedColor c
            = (es ! ?k)\<lparr>ReferenceColor.colorCode := ReferenceColor.colorCode (correctedColor c),
                         ReferenceColor.colorName := ReferenceColor.colorName (correctedColor c)\<rparr>"
      by blast
  qed
  from applyLoop_invariant[of "map Some es" ?P ?vs, OF start each] frame installed
  show ?thesis by (simp add: applyCorrections_def)
qed

theorem applyCorrections_frame_witness:
  "1 \<notin> originalIndex ` set (corrections (validateAndCorrect [ex_entry, ex_navy]))
   \<and> applyCorrections [ex_entry, ex_navy] (corrections (validateAndCorrect [ex_entry, ex_navy])) ! 1
      = Some ex_navy
   \<and> length (applyCorrections [ex_entry, ex_navy] (corrections (validateAndCorrect [ex_entry, ex_navy]))) = 2
   \<and> map_option ReferenceColor.rgb
        (applyCorrections [ex_entry, ex_navy] (corrections (validateAndCorrect [ex_entry, ex_navy])) ! 0)
      = Some \<lparr>rgb_r = 15, rgb_g = 76, rgb_b = 129\<rparr>
   \<and> applyCorrections [ex_entry, ex_navy] (corrections (validateAndCorrect [ex_entry, ex_navy])) ! 0
      = Some (ex_entry\<lparr>ReferenceColor.colorCode := ''B10119'', ReferenceColor.colorName := ''Gardenia''\<rparr>)"
proof -
  let ?es = "[ex_entry, ex_navy]"
  let ?cs = "corrections (validateAndCorrect ?es)"
  let ?c = "\<lparr>originalIndex = 0,
      correctedColor = ex_entry\<lparr>ReferenceColor.colorCode := ''B10119'', ReferenceColor.colorName := ''Gardenia''\<rparr>,
      reason = ''OCR failed, applied correction based on position. Expected B10119, got C1234.''\<rparr>"
  note inst = applyCorrections_frame[of ?es ?cs]
  have notin: "1 \<notin> originalIndex ` set ?cs"
    by (simp add: ex_pair_corrections)
  have i0: "0 < length ?es" and i1: "1 < length ?es" by simp_all
  from inst[THEN conjunct1, rule_format, OF i1 notin]
  have r1: "applyCorrections ?es ?cs ! 1 = Some ex_navy"
    by simp
  from inst[THEN conjunct2, THEN conjunct1]
  have len: "length (applyCorrections ?es ?cs) = 2"
    by simp
  from inst[THEN conjunct2, THEN conjunct2, THEN conjunct1, rule_format, OF i0]
  obtain e where "applyCorrections ?es ?cs ! 0 = Some e"
    "ReferenceColor.rgb e = ReferenceColor.rgb (?es ! 0)"
    by blast
  then have kept: "map_option ReferenceColor.rgb (applyCorrections ?es ?cs ! 0)
      = Some \<lparr>rgb_r = 15, rgb_g = 76, rgb_b = 129\<rparr>"
    by (simp add: ex_entry_def)
  have mem: "?c \<in> set ?cs" by (simp add: ex_pair_corrections)
  from inst[THEN conjunct2, THEN conjunct2, THEN conjunct2, THEN bspec, OF mem]
  have r0: "applyCorrections ?es ?cs ! 0
      = Some (ex_entry\<lparr>ReferenceColor.colorCode := ''B10119'', ReferenceColor.colorName := ''Gardenia''\<rparr>)"
    by simp
  from notin r1 len kept r0 show ?thesis by simp
qed

section \<open>Properties of the swatch extractor\<close>

subsection \<open>Parsing the recognised text\<close>

lemma parseSwatchText_cases:
  "parseSwatchText text =
     (case filter (\<lambda>line. line \<noteq> []) (map trim (splitLines text)) of
        [] \<Rightarrow> None
      | first # others \<Rightarrow>
          Some \<lparr>SwatchText.styleNumber = (if 6 \<le> length first then take 6 first else ''Unknown''),
                styleName =
                  (let cleaned = (case others of [] \<Rightarrow> []
                                  | second # _ \<Rightarrow> trim (collapseSpaces (filter (\<lambda>c. c \<noteq> CHR ''|'') second)));
                       remainder = trim (drop 6 first)
                   in if cleaned \<noteq> [] then cleaned
                      else if 2 < length remainder then remainder
                      else ''Unknown'')\<rparr>)"
proof (cases "filter (\<lambda>line. line \<noteq> []) (map trim (splitLines text))")
  case Nil
  then show ?thesis by (simp add: parseSwatchText_def)
next
  case (Cons first others)
  note outer = Cons
  show ?thesis
  proof (cases others)
    case Nil
    with outer show ?thesis
      by (simp add: parseSwatchText_def Let_def)
  next
    case (Cons second rest)
    from outer have "second \<in> set (filter (\<lambda>line. line \<noteq> []) (map trim (splitLines text)))"
      using Cons by simp
    then have "second \<noteq> []" by simp
    with outer Cons show ?thesis
      by (simp add: parseSwatchText_def Let_def)
  qed
qed

lemma swatchFromText_None:
  "(swatchFromText recognised boxColors bbox = None) = (parseSwatchText (trim recognised) = None)"
  by (simp add: swatchFromText_def split: option.splits)

lemma ex_text_parse:
  "parseSwatchText ex_text = Some \<lparr>SwatchText.styleNumber = ''123456'', styleName = ''My Style Name''\<rparr>"
  unfolding ex_text_def by code_simp

lemma ex_short_text_lines:
  "filter (\<lambda>line. line \<noteq> []) (map trim (splitLines ex_short_text)) = [''ABC'', ''|'']"
  by (simp add: ex_short_text_def trim_def isSpace_def)

lemma ex_short_text_parse:
  "parseSwatchText ex_short_text = Some \<lparr>SwatchText.styleNumber = ''Unknown'', styleName = ''Unknown''\<rparr>"
  unfolding ex_short_text_def by code_simp

text \<open>
  Cleaning the second line: what is left holds no pipe and no run of white space.
\<close>

lemma trim_subset: "set (trim s) \<subseteq> set s"
  unfolding trim_def by (auto dest!: set_dropWhileD)

lemma collapseSpaces_subset: "set (collapseSpaces s) \<subseteq> insert CHR '' '' (set s)"
  by (induction s rule: collapseSpaces.induct) (auto dest!: set_dropWhileD)

lemma cleaned_no_pipe:
  "CHR ''|'' \<notin> set (trim (collapseSpaces (filter (\<lambda>c. c \<noteq> CHR ''|'') s)))"
proof
  assume "CHR ''|'' \<in> set (trim (collapseSpaces (filter (\<lambda>c. c \<noteq> CHR ''|'') s)))"
  with trim_subset have "CHR ''|'' \<in> set (collapseSpaces (filter (\<lambda>c. c \<noteq> CHR ''|'') s))"
    by blast
  with collapseSpaces_subset have "CHR ''|'' \<in> insert CHR '' '' (set (filter (\<lambda>c. c \<noteq> CHR ''|'') s))"
    by blast
  then show False by simp
qed

lemma collapseSpaces_only_blank:
  "c \<in> set (collapseSpaces s) \<Longrightarrow> isSpace c \<Longrightarrow> c = CHR '' ''"
  by (induction s rule: collapseSpaces.induct) (auto split: if_splits)

lemma collapseSpaces_head:
  "s \<noteq> [] \<Longrightarrow> \<not> isSpace (hd s) \<Longrightarrow> collapseSpaces s = hd s # collapseSpaces (tl s)"
  by (cases s) simp_all

lemma collapseSpaces_no_run:
  "Suc i < length (collapseSpaces s) \<Longrightarrow>
     \<not> (isSpace (collapseSpaces s ! i) \<and> isSpace (collapseSpaces s ! Suc i))"
proof (induction s arbitrary: i rule: collapseSpaces.induct)
  case 1
  then show ?case by simp
next
  case (2 c cs)
  show ?case
  proof (cases "isSpace c")
    case True
    let ?t = "dropWhile isSpace cs"
    have res: "collapseSpaces (c # cs) = CHR '' '' # collapseSpaces ?t"
      using True by simp
    show ?thesis
    proof (cases i)
      case 0
      with "2.prems" res have ne: "collapseSpaces ?t \<noteq> []" by auto
      have t: "?t \<noteq> []"
      proof
        assume e: "?t = []"
        have "collapseSpaces ?t = []" unfolding e by simp
        with ne show False by simp
      qed
      then have "\<not> isSpace (hd ?t)" by (rule hd_dropWhile)
      with t have "collapseSpaces ?t = hd ?t # collapseSpaces (tl ?t)"
        by (rule collapseSpaces_head)
      with res 0 \<open>\<not> isSpace (hd ?t)\<close> show ?thesis by simp
    next
      case (Suc j)
      with "2.prems" res have "Suc j < length (collapseSpaces ?t)" by simp
      from "2.IH"(1)[OF True this] res Suc show ?thesis by simp
    qed
  next
    case False
    have res: "collapseSpaces (c # cs) = c # collapseSpaces cs"
      using False by simp
    show ?thesis
    proof (cases i)
      case 0
      with res False show ?thesis by simp
    next
      case (Suc j)
      with "2.prems" res have "Suc j < length (collapseSpaces cs)" by simp
      from "2.IH"(2)[OF False this] res Suc show ?thesis by simp
    qed
  qed
qed

text \<open>
  A trimmed string is a contiguous piece of the string, without white space at its ends.
\<close>

lemma trim_piece: "\<exists>lead trail. s = lead @ trim s @ trail"
proof -
  let ?a = "dropWhile isSpace s"
  let ?b = "dropWhile isSpace (rev ?a)"
  have "s = takeWhile isSpace s @ ?a" by simp
  moreover have "rev ?a = takeWhile isSpace (rev ?a) @ ?b" by simp
  then have "?a = rev ?b @ rev (takeWhile isSpace (rev ?a))"
    by (metis rev_append rev_rev_ident)
  ultimately have "s = takeWhile isSpace s @ trim s @ rev (takeWhile isSpace (rev ?a))"
    unfolding trim_def by simp
  then show ?thesis by blast
qed

lemma trim_ends:
  assumes "trim s \<noteq> []"
  shows "\<not> isSpace (hd (trim s)) \<and> \<not> isSpace (last (trim s))"
proof -
  let ?a = "dropWhile isSpace s"
  let ?b = "dropWhile isSpace (rev ?a)"
  from assms have b: "?b \<noteq> []" by (simp add: trim_def)
  have a: "?a \<noteq> []"
  proof
    assume e: "?a = []"
    have "?b = []" unfolding e by simp
    with b show False by simp
  qed
  have "last (trim s) = hd ?b" using b by (simp add: trim_def last_rev)
  moreover have "\<not> isSpace (hd ?b)" using b by (rule hd_dropWhile)
  moreover have "hd (trim s) = last ?b" using b by (simp add: trim_def hd_rev)
  moreover have "last ?b = last (rev ?a)"
  proof -
    have "rev ?a = takeWhile isSpace (rev ?a) @ ?b" by simp
    then show ?thesis using b by (metis last_appendR)
  qed
  moreover have "last (rev ?a) = hd ?a" using a by (simp add: last_rev)
  moreover have "\<not> isSpace (hd ?a)" using a by (rule hd_dropWhile)
  ultimately show ?thesis by simp
qed

lemma cleaned_single_spaces:
  fixes s :: string
  defines "cleaned \<equiv> trim (collapseSpaces (filter (\<lambda>c. c \<noteq> CHR ''|'') s))"
  assumes "i < length cleaned" and "isSpace (cleaned ! i)"
  shows "cleaned ! i = CHR '' '' \<and> 0 < i \<and> Suc i < length cleaned
     \<and> \<not> isSpace (cleaned ! (i - 1)) \<and> \<not> isSpace (cleaned ! Suc i)"
proof -
  let ?c = "collapseSpaces (filter (\<lambda>c. c \<noteq> CHR ''|'') s)"
  obtain lead trail where piece: "?c = lead @ cleaned @ trail"
    using trim_piece[of ?c] unfolding cleaned_def by blast
  have at: "cleaned ! k = ?c ! (length lead + k)" if "k < length cleaned" for k
    unfolding piece using that by (simp add: nth_append)
  have inside: "length lead + k < length ?c" if "k < length cleaned" for k
    using that by (subst piece) simp
  have ne: "cleaned \<noteq> []" using assms(2) by auto
  from trim_ends[of ?c] ne have ends: "\<not> isSpace (hd cleaned)" "\<not> isSpace (last cleaned)"
    by (simp_all add: cleaned_def)
  have blank: "cleaned ! i = CHR '' ''"
  proof -
    have "cleaned ! i \<in> set ?c" using at[OF assms(2)] inside[OF assms(2)] by (metis nth_mem)
    then show ?thesis using assms(3) by (rule collapseSpaces_only_blank)
  qed
  have pos: "0 < i"
  proof (rule ccontr)
    assume "\<not> 0 < i"
    then have "cleaned ! i = hd cleaned" using ne by (simp add: hd_conv_nth)
    with ends(1) assms(3) show False by simp
  qed
  have below: "Suc i < length cleaned"
  proof (rule ccontr)
    assume "\<not> Suc i < length cleaned"
    with assms(2) have "i = length cleaned - 1" by simp
    then have "cleaned ! i = last cleaned" using ne by (simp add: last_conv_nth)
    with ends(2) assms(3) show False by simp
  qed
  have after: "\<not> isSpace (cleaned ! Suc i)"
  proof -
    have "Suc (length lead + i) < length ?c" using inside[OF below] by simp
    from collapseSpaces_no_run[OF this] at[OF assms(2)] at[OF below] assms(3)
    show ?thesis by simp
  qed
  have before: "\<not> isSpace (cleaned ! (i - 1))"
  proof -
    have k: "i - 1 < length cleaned" using assms(2) by simp
    have "Suc (length lead + (i - 1)) < length ?c" using inside[OF assms(2)] pos by simp
    from collapseSpaces_no_run[OF this] at[OF k] at[OF assms(2)] assms(3) pos
    show ?thesis by simp
  qed
  from blank pos below before after show ?thesis by simp
qed

text \<open>
  Claim C8, as the code has it. Let the lines be the non-empty trimmed lines of the text.
  With no line, \<^verbatim>\<open>parseSwatchText\<close> returns no result, and the swatch extraction then
  returns \<^verbatim>\<open>null\<close>, so that the row loop skips the region. Otherwise the style number
  is the first 6 characters of the first line when that line has at least 6 characters,
  and \<^verbatim>\<open>Unknown\<close> when it is shorter. The style name is the second line with pipes
  removed, white space runs collapsed to one space, and trimmed, when a second line exists
  and something is left of it; otherwise the trimmed rest of the first line beyond
  position 6 when that has more than 2 characters; otherwise \<^verbatim>\<open>Unknown\<close>. A cleaned
  second line holds no pipe, and every white space character of it is one space that
  stands between two characters that are not white space. A result has a style name that
  is not empty and a style number of 6 characters or \<^verbatim>\<open>Unknown\<close>. The text
  \<^verbatim>\<open>123456 SAMPLE\<close> over \<^verbatim>\<open>My Style Name\<close> gives the style number \<^verbatim>\<open>123456\<close> and the
  style name \<^verbatim>\<open>My Style Name\<close>.
\<close>

theorem parseSwatchText_rule:
  "parseSwatchText text =
     (case filter (\<lambda>line. line \<noteq> []) (map trim (splitLines text)) of
        [] \<Rightarrow> None
      | first # others \<Rightarrow>
          Some \<lparr>SwatchText.styleNumber = (if 6 \<le> length first then take 6 first else ''Unknown''),
                styleName =
                  (let cleaned = (case others of [] \<Rightarrow> []
                                  | second # _ \<Rightarrow> trim (collapseSpaces (filter (\<lambda>c. c \<noteq> CHR ''|'') second)));
                       remainder = trim (drop 6 first)
                   in if cleaned \<noteq> [] then cleaned
                      else if 2 < length remainder then remainder
                      else ''Unknown'')\<rparr>)
   \<and> (let cleaned = trim (collapseSpaces (filter (\<lambda>c. c \<noteq> CHR ''|'') second))
      in CHR ''|'' \<notin> set cleaned
         \<and> (\<forall>i. i < length cleaned \<and> isSpace (cleaned ! i) \<longrightarrow>
               cleaned ! i = CHR '' '' \<and> 0 < i \<and> Suc i < length cleaned
               \<and> \<not> isSpace (cleaned ! (i - 1)) \<and> \<not> isSpace (cleaned ! Suc i)))
   \<and> (\<forall>parsed. parseSwatchText text = Some parsed \<longrightarrow>
         SwatchText.styleName parsed \<noteq> []
         \<and> (length (SwatchText.styleNumber parsed) = 6 \<or> SwatchText.styleNumber parsed = ''Unknown''))
   \<and> (filter (\<lambda>line. line \<noteq> []) (map trim (splitLines (trim recognised))) = []
        \<longrightarrow> swatchFromText recognised boxColors bbox = None)
   \<and> (filter (\<lambda>line. line \<noteq> []) (map trim (splitLines (trim recognised))) = []
        \<longrightarrow> swatchesOfRow ((recognised, boxColors, bbox) # rest) = swatchesOfRow rest)
   \<and> parseSwatchText (''123456 SAMPLE'' @ [CHR 0x0A] @ ''My Style Name'')
        = Some \<lparr>SwatchText.styleNumber = ''123456'', styleName = ''My Style Name''\<rparr>"
proof -
  have none: "(parseSwatchText t = None) = (filter (\<lambda>line. line \<noteq> []) (map trim (splitLines t)) = [])" for t
    by (simp add: parseSwatchText_cases split: list.splits)
  have skip: "(swatchFromText recognised boxColors bbox = None)
        = (filter (\<lambda>line. line \<noteq> []) (map trim (splitLines (trim recognised))) = [])"
    by (simp add: swatchFromText_None none)
  then have row: "filter (\<lambda>line. line \<noteq> []) (map trim (splitLines (trim recognised))) = []
        \<longrightarrow> swatchesOfRow ((recognised, boxColors, bbox) # rest) = swatchesOfRow rest"
    by auto
  from skip have none_found: "filter (\<lambda>line. line \<noteq> []) (map trim (splitLines (trim recognised))) = []
        \<longrightarrow> swatchFromText recognised boxColors bbox = None"
    by simp
  have clean: "let cleaned = trim (collapseSpaces (filter (\<lambda>c. c \<noteq> CHR ''|'') second))
      in CHR ''|'' \<notin> set cleaned
         \<and> (\<forall>i. i < length cleaned \<and> isSpace (cleaned ! i) \<longrightarrow>
               cleaned ! i = CHR '' '' \<and> 0 < i \<and> Suc i < length cleaned
               \<and> \<not> isSpace (cleaned ! (i - 1)) \<and> \<not> isSpace (cleaned ! Suc i))"
    unfolding Let_def using cleaned_no_pipe[of second] cleaned_single_spaces[of _ second] by blast
  have fields: "\<forall>parsed. parseSwatchText text = Some parsed \<longrightarrow>
         SwatchText.styleName parsed \<noteq> []
         \<and> (length (SwatchText.styleNumber parsed) = 6 \<or> SwatchText.styleNumber parsed = ''Unknown'')"
  proof (intro allI impI)
    fix parsed assume p: "parseSwatchText text = Some parsed"
    then obtain first others where l: "filter (\<lambda>line. line \<noteq> []) (map trim (splitLines text)) = first # others"
      by (cases "filter (\<lambda>line. line \<noteq> []) (map trim (splitLines text))") (simp_all add: parseSwatchText_cases)
    from p have nm: "SwatchText.styleName parsed \<noteq> []"
      unfolding parseSwatchText_cases l by (auto simp: Let_def split: if_splits)
    from p have "SwatchText.styleNumber parsed = (if 6 \<le> length first then take 6 first else ''Unknown'')"
      unfolding parseSwatchText_cases l by auto
    then have "length (SwatchText.styleNumber parsed) = 6 \<or> SwatchText.styleNumber parsed = ''Unknown''"
      by (cases "6 \<le> length first") simp_all
    with nm show "SwatchText.styleName parsed \<noteq> []
         \<and> (length (SwatchText.styleNumber parsed) = 6 \<or> SwatchText.styleNumber parsed = ''Unknown'')"
      by simp
  qed
  have example: "parseSwatchText (''123456 SAMPLE'' @ [CHR 0x0A] @ ''My Style Name'')
        = Some \<lparr>SwatchText.styleNumber = ''123456'', styleName = ''My Style Name''\<rparr>"
    using ex_text_parse by (simp only: ex_text_def)
  show ?thesis
    by (intro conjI parseSwatchText_cases clean fields none_found row example)
qed

theorem parseSwatchText_rule_witness:
  "parseSwatchText ''12345678'' = Some \<lparr>SwatchText.styleNumber = ''123456'', styleName = ''Unknown''\<rparr>
   \<and> trim (collapseSpaces (filter (\<lambda>c. c \<noteq> CHR ''|'') ''a |  b'')) = ''a b''
   \<and> isSpace (''a b'' ! 1) \<and> \<not> isSpace (''a b'' ! 0) \<and> \<not> isSpace (''a b'' ! 2)
   \<and> filter (\<lambda>line. line \<noteq> []) (map trim (splitLines (trim ''  ''))) = []
   \<and> swatchFromText ''  '' [ex_black] \<lparr>box_x = 0, box_y = 0, box_width = 120, box_height = 90\<rparr> = None
   \<and> swatchesOfRow [(''  '', [ex_black], \<lparr>box_x = 0, box_y = 0, box_width = 120, box_height = 90\<rparr>)] = []"
proof -
  let ?bbox = "\<lparr>box_x = 0, box_y = 0, box_width = 120, box_height = 90\<rparr>"
  have lines: "filter (\<lambda>line. line \<noteq> []) (map trim (splitLines ''12345678'')) = [''12345678'']"
    by (simp add: trim_def isSpace_def)
  have blank: "filter (\<lambda>line. line \<noteq> []) (map trim (splitLines (trim ''  ''))) = []"
    by (simp add: trim_def isSpace_def)
  have cl: "trim (collapseSpaces (filter (\<lambda>c. c \<noteq> CHR ''|'') ''a |  b'')) = ''a b''"
    by (simp add: trim_def isSpace_def)
  have sp: "isSpace (''a b'' ! 1)" by (simp add: isSpace_def)
  note inst = parseSwatchText_rule[of "''12345678''" "''a |  b''" "''  ''" "[ex_black]" ?bbox "[]"]
  from inst[THEN conjunct1, unfolded lines] have p: "parseSwatchText ''12345678''
      = Some \<lparr>SwatchText.styleNumber = ''123456'', styleName = ''Unknown''\<rparr>"
    by (simp add: trim_def isSpace_def)
  from inst[THEN conjunct2, THEN conjunct1, unfolded Let_def cl, THEN conjunct2, rule_format, of 1] sp
  have around: "\<not> isSpace (''a b'' ! 0) \<and> \<not> isSpace (''a b'' ! 2)"
    by simp
  from inst[THEN conjunct2, THEN conjunct2, THEN conjunct2, THEN conjunct1, THEN mp, OF blank]
  have s: "swatchFromText ''  '' [ex_black] ?bbox = None" .
  from inst[THEN conjunct2, THEN conjunct2, THEN conjunct2, THEN conjunct2, THEN conjunct1, THEN mp, OF blank]
  have r: "swatchesOfRow [(''  '', [ex_black], ?bbox)] = []" by simp
  from p cl sp around blank s r show ?thesis by simp
qed

text \<open>
  The text \<^verbatim>\<open>ABC\<close> over \<^verbatim>\<open>|\<close> has two non-empty lines. The style number is
  \<^verbatim>\<open>Unknown\<close>, not the first characters \<^verbatim>\<open>ABC\<close> of the first line, and the style name
  is \<^verbatim>\<open>Unknown\<close>, not the cleaned second line, which is empty.
\<close>

theorem parseSwatchText_counterexample:
  "filter (\<lambda>line. line \<noteq> []) (map trim (splitLines ex_short_text)) = [''ABC'', ''|'']
   \<and> parseSwatchText ex_short_text
        = Some \<lparr>SwatchText.styleNumber = ''Unknown'', styleName = ''Unknown''\<rparr>
   \<and> take 6 ''ABC'' \<noteq> ''Unknown''
   \<and> trim (collapseSpaces (filter (\<lambda>c. c \<noteq> CHR ''|'') ''|'')) \<noteq> ''Unknown''"
  using ex_short_text_lines ex_short_text_parse
  by (simp add: trim_def)

subsection \<open>Row detection\<close>

text \<open>
  The scan of \<^verbatim>\<open>findRowEnd\<close> in three stretches: up to the first content row, through the
  content, and through the closing gap; and the scan that reaches the bottom margin first.
\<close>

lemma findRowStart_first_content:
  assumes "py \<le> y0" and "y0 < img_height img - 10"
    and "\<forall>k. py \<le> k \<and> k < y0 \<longrightarrow> whiteAt img scanX k"
    and "\<not> whiteAt img scanX y0"
  shows "findRowStart img scanX py = Some (max 0 (y0 - 45))"
  using assms
proof (induction "nat (y0 - py)" arbitrary: py)
  case 0
  then have "py = y0" by simp
  with "0.prems" show ?case by simp
next
  case (Suc n)
  then have lt: "py < y0" by linarith
  with Suc.prems have w: "whiteAt img scanX py" and h: "py < img_height img - 10" by auto
  have "findRowStart img scanX (py + 1) = Some (max 0 (y0 - 45))"
  proof (rule Suc.hyps(1))
    show "n = nat (y0 - (py + 1))" using Suc.hyps(2) by linarith
    show "py + 1 \<le> y0" using lt by simp
    show "y0 < img_height img - 10" by fact
    show "\<forall>k. py + 1 \<le> k \<and> k < y0 \<longrightarrow> whiteAt img scanX k" using Suc.prems(3) by auto
    show "\<not> whiteAt img scanX y0" by fact
  qed
  with w h show ?case by simp
qed

lemma findRowEndLoop_before_content:
  assumes "py \<le> y0" and "y0 < img_height img - 10"
    and "\<not> whiteAt img scanX y0"
    and "0 \<le> c" and "c + (y0 - py) < t"
  shows "findRowEndLoop img scanX rs t py c = findRowEndLoop img scanX rs t (y0 + 1) 0"
  using assms
proof (induction "nat (y0 - py)" arbitrary: py c)
  case 0
  then have "py = y0" by simp
  with "0.prems" show ?case by (subst findRowEndLoop.simps) simp
next
  case (Suc n)
  then have lt: "py < y0" by linarith
  with Suc.prems have h: "py < img_height img - 10" by simp
  have step: "findRowEndLoop img scanX rs t (py + 1) c' = findRowEndLoop img scanX rs t (y0 + 1) 0"
    if "0 \<le> c'" "c' \<le> c + 1" for c'
  proof (rule Suc.hyps(1))
    show "n = nat (y0 - (py + 1))" using Suc.hyps(2) by linarith
    show "py + 1 \<le> y0" using lt by simp
    show "y0 < img_height img - 10" by fact
    show "\<not> whiteAt img scanX y0" by fact
    show "0 \<le> c'" by fact
    show "c' + (y0 - (py + 1)) < t" using Suc.prems(5) that by linarith
  qed
  have small: "\<not> t \<le> c + 1" using Suc.prems(5) lt by linarith
  show ?case
  proof (cases "whiteAt img scanX py")
    case True
    with h small step[of "c + 1"] Suc.prems(4) show ?thesis
      by (subst findRowEndLoop.simps) (simp add: Let_def)
  next
    case False
    with h step[of 0] Suc.prems(4) show ?thesis
      by (subst findRowEndLoop.simps) simp
  qed
qed

lemma findRowEndLoop_through_content:
  assumes "py \<le> y1 + 1" and "y1 < img_height img - 10"
    and "\<forall>k. py \<le> k \<and> k \<le> y1 \<longrightarrow> \<not> whiteAt img scanX k"
  shows "findRowEndLoop img scanX rs t py 0 = findRowEndLoop img scanX rs t (y1 + 1) 0"
  using assms
proof (induction "nat (y1 + 1 - py)" arbitrary: py)
  case 0
  then have "py = y1 + 1" by simp
  then show ?case by simp
next
  case (Suc n)
  then have le: "py \<le> y1" by linarith
  with Suc.prems have nw: "\<not> whiteAt img scanX py" and h: "py < img_height img - 10" by auto
  have "findRowEndLoop img scanX rs t (py + 1) 0 = findRowEndLoop img scanX rs t (y1 + 1) 0"
  proof (rule Suc.hyps(1))
    show "n = nat (y1 + 1 - (py + 1))" using Suc.hyps(2) by linarith
    show "py + 1 \<le> y1 + 1" using le by simp
    show "y1 < img_height img - 10" by fact
    show "\<forall>k. py + 1 \<le> k \<and> k \<le> y1 \<longrightarrow> \<not> whiteAt img scanX k" using Suc.prems(3) by auto
  qed
  with nw h show ?case
    by (subst findRowEndLoop.simps) simp
qed

lemma findRowEndLoop_closing_gap:
  assumes "y1 < py" and "py \<le> y1 + t" and "y1 + t < img_height img - 10"
    and "\<forall>k. y1 < k \<and> k \<le> y1 + t \<longrightarrow> whiteAt img scanX k"
    and "c = py - (y1 + 1)"
  shows "findRowEndLoop img scanX rs t py c = Some (max y1 (rs + 1))"
  using assms
proof (induction "nat (y1 + t - py)" arbitrary: py c)
  case 0
  then have py: "py = y1 + t" by simp
  with "0.prems" have w: "whiteAt img scanX py" and h: "py < img_height img - 10" by auto
  from py "0.prems"(5) have "c + 1 = t" by simp
  with w h py show ?case
    by (subst findRowEndLoop.simps) (simp add: Let_def)
next
  case (Suc n)
  then have lt: "py < y1 + t" by linarith
  with Suc.prems have w: "whiteAt img scanX py" and h: "py < img_height img - 10" by auto
  from lt Suc.prems(5) have small: "\<not> t \<le> c + 1" by linarith
  have "findRowEndLoop img scanX rs t (py + 1) (c + 1) = Some (max y1 (rs + 1))"
  proof (rule Suc.hyps(1))
    show "n = nat (y1 + t - (py + 1))" using Suc.hyps(2) by linarith
    show "y1 < py + 1" using Suc.prems(1) by simp
    show "py + 1 \<le> y1 + t" using lt by simp
    show "y1 + t < img_height img - 10" by fact
    show "\<forall>k. y1 < k \<and> k \<le> y1 + t \<longrightarrow> whiteAt img scanX k" by fact
    show "c + 1 = py + 1 - (y1 + 1)" using Suc.prems(5) by simp
  qed
  with w h small show ?case
    by (subst findRowEndLoop.simps) (simp add: Let_def)
qed

lemma findRowEndLoop_runs_out:
  assumes "0 \<le> c" and "c + (img_height img - 10 - py) < t"
  shows "findRowEndLoop img scanX rs t py c = None"
  using assms
proof (induction "nat (img_height img - 10 - py)" arbitrary: py c)
  case 0
  then have "\<not> py < img_height img - 10" by simp
  then show ?case by (subst findRowEndLoop.simps) simp
next
  case (Suc n)
  then have h: "py < img_height img - 10" by linarith
  have step: "findRowEndLoop img scanX rs t (py + 1) c' = None" if "0 \<le> c'" "c' \<le> c + 1" for c'
  proof (rule Suc.hyps(1))
    show "n = nat (img_height img - 10 - (py + 1))" using Suc.hyps(2) by linarith
    show "0 \<le> c'" by fact
    show "c' + (img_height img - 10 - (py + 1)) < t" using Suc.prems(2) that by linarith
  qed
  have small: "\<not> t \<le> c + 1" using Suc.prems(2) h by linarith
  show ?case
  proof (cases "whiteAt img scanX py")
    case True
    with h small step[of "c + 1"] Suc.prems(1) show ?thesis
      by (subst findRowEndLoop.simps) (simp add: Let_def)
  next
    case False
    with h step[of 0] Suc.prems(1) show ?thesis
      by (subst findRowEndLoop.simps) simp
  qed
qed

text \<open>The synthetic column is white exactly outside its black rows.\<close>

lemma concat_blocks_length:
  "(\<And>k. length (f k) = 3) \<Longrightarrow> length (concat (map f [0..<h])) = 3 * h"
  by (induction h) simp_all

lemma concat_blocks_nth:
  "(\<And>k. length (f k) = 3) \<Longrightarrow> k < h \<Longrightarrow> j < 3 \<Longrightarrow> concat (map f [0..<h]) ! (3 * k + j) = f k ! j"
proof (induction h)
  case 0
  then show ?case by simp
next
  case (Suc h)
  have len: "length (concat (map f [0..<h])) = 3 * h"
    using Suc.prems(1) by (rule concat_blocks_length)
  show ?case
  proof (cases "k < h")
    case True
    then have "3 * k + j < 3 * h" using Suc.prems(3) by simp
    with Suc.IH[OF Suc.prems(1) True Suc.prems(3)] len show ?thesis
      by (simp add: nth_append)
  next
    case False
    with Suc.prems(2) have "k = h" by simp
    with len show ?thesis by (simp add: nth_append)
  qed
qed

lemma ex_column_whiteAt:
  "whiteAt (ex_column h a b) 0 k = (0 \<le> k \<and> k < int h \<and> \<not> (a \<le> nat k \<and> nat k \<le> b))"
proof -
  let ?f = "\<lambda>k. if a \<le> k \<and> k \<le> b then [0, 0, 0] else [255, 255, 255 :: 8 word]"
  let ?buf = "concat (map ?f [0..<h])"
  have len3: "\<And>k. length (?f k) = 3" by simp
  have len: "length ?buf = 3 * h" using len3 by (rule concat_blocks_length)
  show ?thesis
  proof (cases "0 \<le> k \<and> k < int h")
    case False
    then have "bufferAt ?buf (k * 3) = None"
      using len by (auto simp: bufferAt_def)
    with False show ?thesis
      by (auto simp: whiteAt_def readPixel_def whiteRead_def ex_column_def Let_def)
  next
    case True
    define n where "n = nat k"
    with True have n: "k = int n" "n < h" by linarith+
    have rd: "bufferAt ?buf (k * 3 + int j) = Some (uint (?f n ! j))" if "j < 3" for j
    proof -
      have i1: "0 \<le> k * 3 + int j" "k * 3 + int j < int (length ?buf)"
        using len n that by simp_all
      have i2: "nat (k * 3 + int j) = 3 * n + j" using n by simp
      have "bufferAt ?buf (k * 3 + int j) = Some (uint (?buf ! (3 * n + j)))"
        unfolding bufferAt_def i2 using i1 by simp
      also have "?buf ! (3 * n + j) = ?f n ! j"
        using len3 n(2) that by (rule concat_blocks_nth)
      finally show ?thesis .
    qed
    from rd[of 0] rd[of 1] rd[of 2]
    have "readPixel (ex_column h a b) 0 k
        = (Some (uint (?f n ! 0)), Some (uint (?f n ! 1)), Some (uint (?f n ! 2)))"
      by (simp add: readPixel_def ex_column_def Let_def)
    with True n show ?thesis
      by (simp add: whiteAt_def whiteRead_def isWhiteOrNearWhite_def)
  qed
qed

text \<open>
  Claim C7, as the code has it. Take a scan column that is background from the caller's
  offset up to \<open>y0\<close>, non-background from \<open>y0\<close> to \<open>y1\<close> and background for the next
  \<open>gapThreshold\<close> rows. If \<open>gapThreshold\<close> is larger than the back-off margin 45 (the
  pipeline uses 50) and the closing gap ends above the bottom margin that the scan skips
  (\<open>y1 + gapThreshold < height - 10\<close>), then \<^verbatim>\<open>findRowStart\<close> followed by
  \<^verbatim>\<open>findRowEnd\<close> produces a row with \<open>startY = max 0 (y0 - 45) \<le> y0\<close> and
  \<open>endY = max y1 (startY + 1) \<ge> y1\<close>: the row contains \<open>[y0, y1]\<close>.
\<close>

theorem detectRow_contains_content:
  assumes "0 \<le> currentY" and "currentY \<le> y0" and "y0 \<le> y1"
    and "y1 + gapThreshold < img_height img - 10"
    and "45 < gapThreshold"
    and "\<forall>k. currentY \<le> k \<and> k < y0 \<longrightarrow> whiteAt img scanX k"
    and "\<forall>k. y0 \<le> k \<and> k \<le> y1 \<longrightarrow> \<not> whiteAt img scanX k"
    and "\<forall>k. y1 < k \<and> k \<le> y1 + gapThreshold \<longrightarrow> whiteAt img scanX k"
  shows "findRowStart img scanX currentY = Some (max 0 (y0 - 45))
     \<and> findRowEnd img scanX (max 0 (y0 - 45)) gapThreshold = Some (max y1 (max 0 (y0 - 45) + 1))
     \<and> (\<exists>row. detectRow img scanX currentY gapThreshold = Some row
          \<and> startY row = max 0 (y0 - 45) \<and> endY row = max y1 (max 0 (y0 - 45) + 1)
          \<and> startY row \<le> y0 \<and> y1 \<le> endY row)"
proof -
  let ?rs = "max 0 (y0 - 45)"
  have h0: "y0 < img_height img - 10" and h1: "y1 < img_height img - 10"
    using assms(3,4,5) by linarith+
  have nw0: "\<not> whiteAt img scanX y0" using assms(3,7) by simp
  have rs: "?rs \<le> y0" using assms(1,2) by linarith
  have start: "findRowStart img scanX currentY = Some ?rs"
    by (rule findRowStart_first_content[OF assms(2) h0 assms(6) nw0])
  have "findRowEndLoop img scanX ?rs gapThreshold ?rs 0
      = findRowEndLoop img scanX ?rs gapThreshold (y0 + 1) 0"
    by (rule findRowEndLoop_before_content[OF rs h0 nw0]) (use assms(5) in auto)
  also have "\<dots> = findRowEndLoop img scanX ?rs gapThreshold (y1 + 1) 0"
    by (rule findRowEndLoop_through_content[OF _ h1]) (use assms(3,7) in auto)
  also have "\<dots> = Some (max y1 (?rs + 1))"
    by (rule findRowEndLoop_closing_gap[OF _ _ assms(4) assms(8)]) (use assms(5) in auto)
  finally have stop: "findRowEnd img scanX ?rs gapThreshold = Some (max y1 (?rs + 1))"
    by (simp add: findRowEnd_def)
  with start rs show ?thesis
    by (auto simp: detectRow_def)
qed

theorem detectRow_contains_content_witness:
  "(0::int) \<le> 0 \<and> (60::int) \<le> 70 \<and> (70::int) + 50 < img_height (ex_column 200 60 70) - 10
   \<and> whiteAt (ex_column 200 60 70) 0 59 \<and> \<not> whiteAt (ex_column 200 60 70) 0 60
   \<and> \<not> whiteAt (ex_column 200 60 70) 0 70 \<and> whiteAt (ex_column 200 60 70) 0 71
   \<and> whiteAt (ex_column 200 60 70) 0 120
   \<and> detectRow (ex_column 200 60 70) 0 0 50 = Some \<lparr>startY = 15, endY = 70, row_height = 55\<rparr>"
proof -
  let ?img = "ex_column 200 60 70"
  have h: "img_height ?img = 200" by (simp add: ex_column_def)
  have a: "\<forall>k. 0 \<le> k \<and> k < 60 \<longrightarrow> whiteAt ?img 0 k"
    by (auto simp: ex_column_whiteAt)
  have b: "\<forall>k. 60 \<le> k \<and> k \<le> 70 \<longrightarrow> \<not> whiteAt ?img 0 k"
    by (auto simp: ex_column_whiteAt)
  have c: "\<forall>k. 70 < k \<and> k \<le> 70 + 50 \<longrightarrow> whiteAt ?img 0 k"
    by (auto simp: ex_column_whiteAt)
  from detectRow_contains_content[of 0 60 70 50 ?img 0, OF _ _ _ _ _ a b c]
  obtain row where "detectRow ?img 0 0 50 = Some row" "startY row = 15" "endY row = 70"
    by (auto simp: h)
  moreover have "row_height row = endY row - startY row"
    using calculation(1) by (auto simp: detectRow_def split: option.splits)
  ultimately have "detectRow ?img 0 0 50 = Some \<lparr>startY = 15, endY = 70, row_height = 55\<rparr>"
    by (cases row) simp
  then show ?thesis
    by (simp add: ex_column_whiteAt h)
qed

text \<open>
  Without the two conditions the claim fails. In a column of 200 rows with content in rows
  60 to 70, a gap threshold of 10 closes the row inside the back-off margin: the row is
  \<open>[15, 16]\<close>. In a column of 123 rows with the same content the 52 background rows below
  it exceed the threshold 50, but the scan stops 10 rows above the bottom and no row is
  produced.
\<close>

theorem detectRow_counterexample:
  "whiteAt (ex_column 200 60 70) 0 59 \<and> \<not> whiteAt (ex_column 200 60 70) 0 60
   \<and> \<not> whiteAt (ex_column 200 60 70) 0 70 \<and> whiteAt (ex_column 200 60 70) 0 71
   \<and> whiteAt (ex_column 200 60 70) 0 80
   \<and> detectRow (ex_column 200 60 70) 0 0 10 = Some \<lparr>startY = 15, endY = 16, row_height = 1\<rparr>
   \<and> whiteAt (ex_column 123 60 70) 0 59 \<and> \<not> whiteAt (ex_column 123 60 70) 0 60
   \<and> \<not> whiteAt (ex_column 123 60 70) 0 70 \<and> whiteAt (ex_column 123 60 70) 0 71
   \<and> whiteAt (ex_column 123 60 70) 0 120
   \<and> detectRow (ex_column 123 60 70) 0 0 50 = None"
proof -
  let ?img = "ex_column 200 60 70"
  let ?low = "ex_column 123 60 70"
  have h: "img_height ?img = 200" "img_height ?low = 123" by (simp_all add: ex_column_def)
  have s1: "findRowStart ?img 0 0 = Some (max 0 (60 - 45))"
    by (rule findRowStart_first_content) (auto simp: ex_column_whiteAt h)
  have e1: "findRowEndLoop ?img 0 15 10 15 0 = Some (max 14 (15 + 1))"
    by (rule findRowEndLoop_closing_gap) (auto simp: ex_column_whiteAt h)
  have r1: "detectRow ?img 0 0 10 = Some \<lparr>startY = 15, endY = 16, row_height = 1\<rparr>"
    using s1 e1 by (simp add: detectRow_def findRowEnd_def)
  have s2: "findRowStart ?low 0 0 = Some (max 0 (60 - 45))"
    by (rule findRowStart_first_content) (auto simp: ex_column_whiteAt h)
  have "findRowEndLoop ?low 0 15 50 15 0 = findRowEndLoop ?low 0 15 50 (60 + 1) 0"
    by (rule findRowEndLoop_before_content) (auto simp: ex_column_whiteAt h)
  also have "\<dots> = findRowEndLoop ?low 0 15 50 (70 + 1) 0"
    by (rule findRowEndLoop_through_content) (auto simp: ex_column_whiteAt h)
  also have "\<dots> = None"
    by (rule findRowEndLoop_runs_out) (auto simp: h)
  finally have r2: "detectRow ?low 0 0 50 = None"
    using s2 by (simp add: detectRow_def findRowEnd_def)
  from r1 r2 show ?thesis
    by (simp add: ex_column_whiteAt)
qed

subsection \<open>Hexadecimal encodings\<close>

lemma sint_small: "- (2 ^ 31) \<le> x \<Longrightarrow> x < 2 ^ 31 \<Longrightarrow> sint (word_of_int x :: 32 word) = x"
  by (simp only: sint_sbintrunc') (simp add: signed_take_bit_int_eq_self)

lemma shiftLeft32_byte:
  assumes "0 \<le> v" "v \<le> 255" "k \<le> 16"
  shows "shiftLeft32 v k = v * 2 ^ k"
proof -
  have "v * 2 ^ k \<le> 255 * 2 ^ 16"
    using assms by (intro mult_mono power_increasing) auto
  then have up: "v * 2 ^ k < 2 ^ 31" by simp
  have "0 \<le> v * 2 ^ k" using assms(1) by simp
  then have lo: "- (2 ^ 31) \<le> v * 2 ^ k"
    by (rule order_trans[rotated]) simp
  have "push_bit k (word_of_int v :: 32 word) = word_of_int (v * 2 ^ k)"
    by (simp add: push_bit_eq_mult)
  then show ?thesis
    unfolding shiftLeft32_def using sint_small[OF lo up] by simp
qed

lemma shiftLeft32_one: "shiftLeft32 1 24 = 16777216"
  by (simp add: shiftLeft32_def)

lemma natToString_step:
  "1 \<le> q \<Longrightarrow> d < 16 \<Longrightarrow> natToString 16 (16 * q + d) = natToString 16 q @ [digitChar d]"
  by (subst natToString.simps) simp

lemma natToString_digit: "d < 16 \<Longrightarrow> natToString 16 d = [digitChar d]"
  by (subst natToString.simps) simp

lemma hex_two_digits:
  assumes "v < 256"
  shows "padStart 2 CHR ''0'' (natToString 16 v) = [digitChar (v div 16), digitChar (v mod 16)]"
proof (cases "v < 16")
  case True
  then show ?thesis
    by (simp add: natToString_digit padStart_def digitChar_def)
next
  case False
  then have q: "1 \<le> v div 16" by simp
  have "v = 16 * (v div 16) + v mod 16" by simp
  then have "natToString 16 v = natToString 16 (v div 16) @ [digitChar (v mod 16)]"
    using natToString_step[OF q, of "v mod 16"] by simp
  moreover have "v div 16 < 16" using assms by simp
  ultimately show ?thesis
    by (simp add: natToString_digit padStart_def)
qed

lemma hex_nested_digits:
  assumes "r1 < 16" "r0 < 16" "g1 < 16" "g0 < 16" "b1 < 16" "b0 < 16"
  shows "natToString 16 (16 * (16 * (16 * (16 * (16 * (16 * 1 + r1) + r0) + g1) + g0) + b1) + b0)
      = [CHR ''1'', digitChar r1, digitChar r0, digitChar g1, digitChar g0, digitChar b1, digitChar b0]"
proof -
  have one: "natToString 16 1 = [CHR ''1'']"
    by (simp add: natToString_digit digitChar_def)
  have "natToString 16 (16 * 1 + r1) = [CHR ''1'', digitChar r1]"
    using natToString_step[of 1 r1] assms one by simp
  then have "natToString 16 (16 * (16 * 1 + r1) + r0) = [CHR ''1'', digitChar r1, digitChar r0]"
    using natToString_step[of "16 * 1 + r1" r0] assms by simp
  then have "natToString 16 (16 * (16 * (16 * 1 + r1) + r0) + g1)
      = [CHR ''1'', digitChar r1, digitChar r0, digitChar g1]"
    using natToString_step[of "16 * (16 * 1 + r1) + r0" g1] assms by simp
  then have "natToString 16 (16 * (16 * (16 * (16 * 1 + r1) + r0) + g1) + g0)
      = [CHR ''1'', digitChar r1, digitChar r0, digitChar g1, digitChar g0]"
    using natToString_step[of "16 * (16 * (16 * 1 + r1) + r0) + g1" g0] assms by simp
  then have "natToString 16 (16 * (16 * (16 * (16 * (16 * 1 + r1) + r0) + g1) + g0) + b1)
      = [CHR ''1'', digitChar r1, digitChar r0, digitChar g1, digitChar g0, digitChar b1]"
    using natToString_step[of "16 * (16 * (16 * (16 * 1 + r1) + r0) + g1) + g0" b1] assms by simp
  then show ?thesis
    using natToString_step[of "16 * (16 * (16 * (16 * (16 * 1 + r1) + r0) + g1) + g0) + b1" b0] assms
    by simp
qed

lemma hex_seven_digits:
  assumes "cr < 256" "cg < 256" "cb < 256"
  shows "natToString 16 (16777216 + cr * 65536 + cg * 256 + cb)
     = [CHR ''1'', digitChar (cr div 16), digitChar (cr mod 16),
        digitChar (cg div 16), digitChar (cg mod 16),
        digitChar (cb div 16), digitChar (cb mod 16)]"
proof -
  define r1 r0 g1 g0 b1 b0 where d: "r1 = cr div 16" "r0 = cr mod 16" "g1 = cg div 16" "g0 = cg mod 16"
    "b1 = cb div 16" "b0 = cb mod 16"
  have small: "r1 < 16" "r0 < 16" "g1 < 16" "g0 < 16" "b1 < 16" "b0 < 16"
    using assms by (simp_all add: d)
  have split: "cr = 16 * r1 + r0" "cg = 16 * g1 + g0" "cb = 16 * b1 + b0"
    by (simp_all add: d)
  have "16777216 + cr * 65536 + cg * 256 + cb
      = 16 * (16 * (16 * (16 * (16 * (16 * 1 + r1) + r0) + g1) + g0) + b1) + b0"
    unfolding split by simp
  then show ?thesis
    using hex_nested_digits[OF small] by (simp only: d)
qed

lemma digitChar_lower: "digitChar d \<in> set ''0123456789abcdef''"
  unfolding digitChar_def by (rule nth_mem) simp

lemma hex_channel:
  assumes "0 \<le> v" "v \<le> 255"
  shows "padStart 2 CHR ''0'' (toString 16 v) = [digitChar (nat v div 16), digitChar (nat v mod 16)]"
  using assms hex_two_digits[of "nat v"] by (simp add: toString_def)

lemma rgbToHex_digits:
  assumes "0 \<le> cr" "cr \<le> 255" "0 \<le> cg" "cg \<le> 255" "0 \<le> cb" "cb \<le> 255"
  shows "rgbToHex cr cg cb
     = CHR ''#'' # map upperChar
         [digitChar (nat cr div 16), digitChar (nat cr mod 16),
          digitChar (nat cg div 16), digitChar (nat cg mod 16),
          digitChar (nat cb div 16), digitChar (nat cb mod 16)]"
proof -
  define total where "total = shiftLeft32 1 24 + shiftLeft32 cr 16 + shiftLeft32 cg 8 + cb"
  define n where "n = 16777216 + nat cr * 65536 + nat cg * 256 + nat cb"
  have s16: "shiftLeft32 cr 16 = cr * 2 ^ 16" and s8: "shiftLeft32 cg 8 = cg * 2 ^ 8"
    using assms by (simp_all only: shiftLeft32_byte) 
  have cr: "cr = int (nat cr)" and cg: "cg = int (nat cg)" and cb: "cb = int (nat cb)"
    using assms by simp_all
  have "total = 16777216 + cr * 65536 + cg * 256 + cb"
    unfolding total_def s16 s8 shiftLeft32_one by simp
  also have "\<dots> = int n"
    unfolding n_def by (subst cr, subst cg, subst cb) (simp only: of_nat_add of_nat_mult of_nat_numeral)
  finally have total: "total = int n" .
  have "toString 16 total = natToString 16 n"
    unfolding total toString_def by simp
  also have "\<dots> = [CHR ''1'', digitChar (nat cr div 16), digitChar (nat cr mod 16),
        digitChar (nat cg div 16), digitChar (nat cg mod 16),
        digitChar (nat cb div 16), digitChar (nat cb mod 16)]"
    unfolding n_def using assms by (intro hex_seven_digits) linarith+
  finally have "drop 1 (toString 16 total)
      = [digitChar (nat cr div 16), digitChar (nat cr mod 16),
         digitChar (nat cg div 16), digitChar (nat cg mod 16),
         digitChar (nat cb div 16), digitChar (nat cb mod 16)]"
    by simp
  then show ?thesis
    unfolding rgbToHex_def total_def[symmetric] by (simp only: toUpperCase_def)
qed

subsection \<open>The color sums stay within the byte range\<close>

lemma bufferAt_range: "bufferAt buf i = Some v \<Longrightarrow> 0 \<le> v \<and> v \<le> 255"
proof -
  assume "bufferAt buf i = Some v"
  then obtain w :: "8 word" where "v = uint w"
    by (auto simp: bufferAt_def split: if_splits)
  moreover have "uint w < 2 ^ LENGTH(8)" by (rule uint_lt2p)
  ultimately show ?thesis by simp
qed

lemma addPixel_bounded:
  assumes "bounded_totals totals"
  shows "bounded_totals (addPixel (readPixel img px py) totals)"
proof (cases totals)
  case None
  then show ?thesis by (simp add: addPixel_def bounded_totals_def)
next
  case (Some q)
  obtain tr tg tb n where q: "q = (tr, tg, tb, n)" by (cases q) auto
  obtain a b c where p: "readPixel img px py = (a, b, c)" by (cases "readPixel img px py") auto
  show ?thesis
  proof (cases "\<exists>cr cg cb. a = Some cr \<and> b = Some cg \<and> c = Some cb")
    case False
    then have "addPixel (a, b, c) totals = None"
      by (auto simp: addPixel_def Some q split: option.splits)
    then show ?thesis by (simp add: p bounded_totals_def)
  next
    case True
    then obtain cr cg cb where v: "a = Some cr" "b = Some cg" "c = Some cb" by blast
    from p v have "bufferAt (imageBuffer img) ((py * img_width img + px) * img_channels img) = Some cr"
      "bufferAt (imageBuffer img) ((py * img_width img + px) * img_channels img + 1) = Some cg"
      "bufferAt (imageBuffer img) ((py * img_width img + px) * img_channels img + 2) = Some cb"
      by (simp_all add: readPixel_def Let_def)
    then have r: "0 \<le> cr" "cr \<le> 255" "0 \<le> cg" "cg \<le> 255" "0 \<le> cb" "cb \<le> 255"
      using bufferAt_range by blast+
    from assms Some q have b: "0 \<le> n" "0 \<le> tr" "tr \<le> 255 * n" "0 \<le> tg" "tg \<le> 255 * n"
      "0 \<le> tb" "tb \<le> 255 * n"
      by (simp_all add: bounded_totals_def)
    show ?thesis
    proof (cases "isWhiteOrNearWhite \<lparr>rgb_r = cr, rgb_g = cg, rgb_b = cb\<rparr>")
      case True
      then have "addPixel (a, b, c) totals = totals"
        by (simp add: addPixel_def Some q v)
      with assms show ?thesis by (simp add: p)
    next
      case False
      then have "addPixel (a, b, c) totals = Some (tr + cr, tg + cg, tb + cb, n + 1)"
        by (simp add: addPixel_def Some q v)
      with r b show ?thesis by (simp add: p bounded_totals_def)
    qed
  qed
qed

lemma sumRow_bounded:
  "bounded_totals totals \<Longrightarrow> bounded_totals (sumRow img py endX px totals)"
proof (induction img py endX px totals rule: sumRow.induct)
  case (1 img py endX px totals)
  show ?case
  proof (cases "px < endX")
    case True
    from "1.IH"[OF True addPixel_bounded[OF "1.prems"]] True show ?thesis
      by (subst sumRow.simps) simp
  next
    case False
    with "1.prems" show ?thesis by (subst sumRow.simps) simp
  qed
qed

lemma sumRows_bounded:
  "bounded_totals totals \<Longrightarrow> bounded_totals (sumRows img startX endX sampleEndY py totals)"
proof (induction img startX endX sampleEndY py totals rule: sumRows.induct)
  case (1 img startX endX sampleEndY py totals)
  show ?case
  proof (cases "py \<le> sampleEndY")
    case True
    from "1.IH"[OF True sumRow_bounded[OF "1.prems"]] True show ?thesis
      by (subst sumRows.simps) simp
  next
    case False
    with "1.prems" show ?thesis by (subst sumRows.simps) simp
  qed
qed

lemma average_range:
  assumes "0 \<le> t" "t \<le> 255 * n" "0 < n"
  shows "0 \<le> Math_round (real_of_int t / real_of_int n) \<and> Math_round (real_of_int t / real_of_int n) \<le> 255"
proof -
  have lo: "0 \<le> real_of_int t / real_of_int n" using assms by simp
  have "real_of_int t \<le> 255 * real_of_int n"
    using assms(2) by (simp flip: of_int_le_iff[where 'a = real])
  then have hi: "real_of_int t / real_of_int n \<le> 255"
    using assms(3) by (simp add: divide_le_eq)
  from lo have "0 \<le> \<lfloor>real_of_int t / real_of_int n + 1 / 2\<rfloor>" by simp
  moreover from hi have "\<lfloor>real_of_int t / real_of_int n + 1 / 2\<rfloor> < 256"
    by (simp add: floor_less_iff)
  ultimately show ?thesis by (simp add: Math_round_def)
qed

subsection \<open>The hex field of a sampled color\<close>

lemma ex_amber_box:
  "extractDominantColor ex_amber_pixel 0 1 0 0
     = Inr (Some \<lparr>ColorBox.rgb = \<lparr>rgb_r = 255, rgb_g = 171, rgb_b = 0\<rparr>, hex = ''#ffab00'',
                  boundingBox = \<lparr>box_x = 0, box_y = 0, box_width = 1, box_height = 1\<rparr>,
                  bottomRightPixel = \<lparr>rgb_r = 255, rgb_g = 171, rgb_b = 0\<rparr>\<rparr>)"
  by code_simp

lemma ex_amber_canonical: "rgbToHex 255 171 0 = ''#FFAB00''"
proof -
  have digits: "[digitChar (nat 255 div 16), digitChar (nat 255 mod 16),
      digitChar (nat 171 div 16), digitChar (nat 171 mod 16),
      digitChar (nat 0 div 16), digitChar (nat 0 mod 16)] = ''ffab00''"
    by (simp add: digitChar_def)
  have upper: "map upperChar ''ffab00'' = ''FFAB00''"
    by code_simp
  have "rgbToHex 255 171 0 = CHR ''#'' # map upperChar ''ffab00''"
    unfolding digits[symmetric] by (rule rgbToHex_digits) simp_all
  then show ?thesis by (simp only: upper)
qed

text \<open>
  Claim C10, as the code has it. Every \<^verbatim>\<open>ColorBox\<close> that \<^verbatim>\<open>extractDominantColor\<close>
  returns has channels between 0 and 255, and its \<^verbatim>\<open>hex\<close> field is \<^verbatim>\<open>#\<close> followed by
  the two-digit hexadecimal text of each channel of its \<^verbatim>\<open>rgb\<close> field: seven characters,
  the digits in lower case. Upper-casing it gives the encoding that
  \<^verbatim>\<open>PDFProcessor.rgbToHex\<close> computes for the reference entries.
\<close>

theorem extractDominantColor_hex:
  assumes "extractDominantColor img startX endX sampleStartY sampleEndY = Inr (Some box)"
  shows "0 \<le> rgb_r (ColorBox.rgb box) \<and> rgb_r (ColorBox.rgb box) \<le> 255
     \<and> 0 \<le> rgb_g (ColorBox.rgb box) \<and> rgb_g (ColorBox.rgb box) \<le> 255
     \<and> 0 \<le> rgb_b (ColorBox.rgb box) \<and> rgb_b (ColorBox.rgb box) \<le> 255
     \<and> ColorBox.hex box
         = CHR ''#'' # padStart 2 CHR ''0'' (toString 16 (rgb_r (ColorBox.rgb box)))
                     @ padStart 2 CHR ''0'' (toString 16 (rgb_g (ColorBox.rgb box)))
                     @ padStart 2 CHR ''0'' (toString 16 (rgb_b (ColorBox.rgb box)))
     \<and> length (ColorBox.hex box) = 7
     \<and> set (ColorBox.hex box) \<subseteq> set ''#0123456789abcdef''
     \<and> toUpperCase (ColorBox.hex box)
         = rgbToHex (rgb_r (ColorBox.rgb box)) (rgb_g (ColorBox.rgb box)) (rgb_b (ColorBox.rgb box))"
proof -
  let ?totals = "sumRows img startX endX sampleEndY sampleStartY (Some (0, 0, 0, 0))"
  from assms obtain q where q: "?totals = Some q"
    by (cases ?totals) (simp_all add: extractDominantColor_def)
  obtain tr tg tb n where totals: "?totals = Some (tr, tg, tb, n)"
    using q by (cases q) auto
  from assms have n0: "n \<noteq> 0"
    unfolding extractDominantColor_def totals by (auto split: if_splits)
  have "bounded_totals (Some (0, 0, 0, 0))" by (simp add: bounded_totals_def)
  then have "bounded_totals ?totals" by (rule sumRows_bounded)
  with totals n0 have b: "0 < n" "0 \<le> tr" "tr \<le> 255 * n" "0 \<le> tg" "tg \<le> 255 * n"
      "0 \<le> tb" "tb \<le> 255 * n"
    by (simp_all add: bounded_totals_def)
  define avgR avgG avgB where avg: "avgR = Math_round (real_of_int tr / real_of_int n)"
    "avgG = Math_round (real_of_int tg / real_of_int n)"
    "avgB = Math_round (real_of_int tb / real_of_int n)"
  have range: "0 \<le> avgR" "avgR \<le> 255" "0 \<le> avgG" "avgG \<le> 255" "0 \<le> avgB" "avgB \<le> 255"
    using average_range[OF b(2,3,1)] average_range[OF b(4,5,1)] average_range[OF b(6,7,1)]
    by (simp_all add: avg)
  obtain pa pb pc where br:
    "readPixel img (min (endX - 1) (img_width img - 1)) (min sampleEndY (img_height img - 1)) = (pa, pb, pc)"
    by (cases "readPixel img (min (endX - 1) (img_width img - 1)) (min sampleEndY (img_height img - 1))") auto
  from assms have "\<exists>cr cg cb. pa = Some cr \<and> pb = Some cg \<and> pc = Some cb"
    unfolding extractDominantColor_def totals Let_def br using n0
    by (cases pa; cases pb; cases pc) simp_all
  then obtain cr cg cb where px: "pa = Some cr" "pb = Some cg" "pc = Some cb" by blast
  from assms have built: "box = \<lparr>ColorBox.rgb = \<lparr>rgb_r = avgR, rgb_g = avgG, rgb_b = avgB\<rparr>,
       hex = ''#'' @ padStart 2 CHR ''0'' (toString 16 avgR)
                  @ padStart 2 CHR ''0'' (toString 16 avgG)
                  @ padStart 2 CHR ''0'' (toString 16 avgB),
       boundingBox = \<lparr>box_x = startX, box_y = sampleStartY, box_width = endX - startX,
                      box_height = sampleEndY - sampleStartY + 1\<rparr>,
       bottomRightPixel = \<lparr>rgb_r = cr, rgb_g = cg, rgb_b = cb\<rparr>\<rparr>"
    unfolding extractDominantColor_def totals Let_def br px avg using n0 by simp
  have box: "ColorBox.rgb box = \<lparr>rgb_r = avgR, rgb_g = avgG, rgb_b = avgB\<rparr>"
      "ColorBox.hex box = ''#'' @ padStart 2 CHR ''0'' (toString 16 avgR)
                                 @ padStart 2 CHR ''0'' (toString 16 avgG)
                                 @ padStart 2 CHR ''0'' (toString 16 avgB)"
    by (simp_all add: built)
  have digits: "ColorBox.hex box
      = CHR ''#'' # [digitChar (nat avgR div 16), digitChar (nat avgR mod 16),
          digitChar (nat avgG div 16), digitChar (nat avgG mod 16),
          digitChar (nat avgB div 16), digitChar (nat avgB mod 16)]"
    using range by (simp add: box(2) hex_channel)
  have lower: "set (ColorBox.hex box) \<subseteq> set ''#0123456789abcdef''"
    unfolding digits using digitChar_lower by auto
  have "upperChar CHR ''#'' = CHR ''#''" by (simp add: upperChar_def)
  then have upper: "toUpperCase (ColorBox.hex box) = rgbToHex avgR avgG avgB"
    unfolding digits rgbToHex_digits[OF range] by (simp add: toUpperCase_def)
  have len: "length (ColorBox.hex box) = 7" by (simp add: digits)
  from range box(2) lower upper len show ?thesis
    unfolding box(1) by simp
qed

theorem extractDominantColor_hex_witness:
  "extractDominantColor ex_amber_pixel 0 1 0 0
     = Inr (Some \<lparr>ColorBox.rgb = \<lparr>rgb_r = 255, rgb_g = 171, rgb_b = 0\<rparr>, hex = ''#ffab00'',
                  boundingBox = \<lparr>box_x = 0, box_y = 0, box_width = 1, box_height = 1\<rparr>,
                  bottomRightPixel = \<lparr>rgb_r = 255, rgb_g = 171, rgb_b = 0\<rparr>\<rparr>)
   \<and> toUpperCase ''#ffab00'' = rgbToHex 255 171 0
   \<and> set ''#ffab00'' \<subseteq> set ''#0123456789abcdef''"
proof -
  note t = extractDominantColor_hex[OF ex_amber_box, unfolded ColorBox.select_convs RGB.select_convs]
  have u: "toUpperCase ''#ffab00'' = rgbToHex 255 171 0"
    by (rule t[THEN conjunct2, THEN conjunct2, THEN conjunct2, THEN conjunct2, THEN conjunct2,
          THEN conjunct2, THEN conjunct2, THEN conjunct2, THEN conjunct2])
  have l: "set ''#ffab00'' \<subseteq> set ''#0123456789abcdef''"
    by (rule t[THEN conjunct2, THEN conjunct2, THEN conjunct2, THEN conjunct2, THEN conjunct2,
          THEN conjunct2, THEN conjunct2, THEN conjunct2, THEN conjunct1])
  show ?thesis
    by (intro conjI ex_amber_box u l)
qed

text \<open>
  For the one-pixel image \<open>(255, 171, 0)\<close> the sampled color carries \<^verbatim>\<open>#ffab00\<close>, where the
  upper-case encoding of the same color is \<^verbatim>\<open>#FFAB00\<close>.
\<close>

theorem extractDominantColor_hex_counterexample:
  "extractDominantColor ex_amber_pixel 0 1 0 0
     = Inr (Some \<lparr>ColorBox.rgb = \<lparr>rgb_r = 255, rgb_g = 171, rgb_b = 0\<rparr>, hex = ''#ffab00'',
                  boundingBox = \<lparr>box_x = 0, box_y = 0, box_width = 1, box_height = 1\<rparr>,
                  bottomRightPixel = \<lparr>rgb_r = 255, rgb_g = 171, rgb_b = 0\<rparr>\<rparr>)
   \<and> rgbToHex 255 171 0 = ''#FFAB00''
   \<and> ''#ffab00'' \<noteq> rgbToHex 255 171 0"
proof -
  have "''#ffab00'' \<noteq> ''#FFAB00''" by simp
  then show ?thesis
    unfolding ex_amber_canonical by (intro conjI ex_amber_box refl)
qed

section \<open>Properties of the anchor boxes\<close>

subsection \<open>The grouping loop keeps its boxes well-formed\<close>

lemma anchorRows_start:
  assumes "n < length matrix" and "significantRow lmw (matrix ! n)" and "5 \<le> rowWidthOf (matrix ! n)"
  shows "anchorRows lmw matrix
     \<lparr>box_x = indexOfTrue (matrix ! n), box_y = int n,
      box_width = rowWidthOf (matrix ! n), box_height = 1\<rparr>"
proof -
  have only: "k = int n" if "int n \<le> k" "k < int n + 1" for k
    using that by simp
  have "\<forall>k. int n \<le> k \<and> k < int n + 1 \<longrightarrow>
      significantRow lmw (matrix ! nat k) \<and> 5 \<le> rowWidthOf (matrix ! nat k)
      \<and> rowWidthOf (matrix ! nat k) \<le> rowWidthOf (matrix ! n)"
    using assms only by auto
  moreover have "\<exists>k. int n \<le> k \<and> k < int n + 1 \<and> rowWidthOf (matrix ! nat k) = rowWidthOf (matrix ! n)"
    by (rule exI[of _ "int n"]) simp
  ultimately show ?thesis
    using assms(1) by (simp add: anchorRows_def)
qed

lemma anchorRows_extend:
  assumes "anchorRows lmw matrix b" and "box_y b + box_height b = int n" and "n < length matrix"
    and "significantRow lmw (matrix ! n)" and "5 \<le> rowWidthOf (matrix ! n)"
  shows "anchorRows lmw matrix
     (b\<lparr>box_width := max (box_width b) (rowWidthOf (matrix ! n)), box_height := box_height b + 1\<rparr>)"
proof -
  let ?w = "max (box_width b) (rowWidthOf (matrix ! n))"
  from assms(1) have old:
    "0 \<le> box_y b" "1 \<le> box_height b"
    "\<forall>k. box_y b \<le> k \<and> k < box_y b + box_height b \<longrightarrow>
        significantRow lmw (matrix ! nat k) \<and> 5 \<le> rowWidthOf (matrix ! nat k)
        \<and> rowWidthOf (matrix ! nat k) \<le> box_width b"
    "\<exists>k. box_y b \<le> k \<and> k < box_y b + box_height b \<and> rowWidthOf (matrix ! nat k) = box_width b"
    "box_x b = indexOfTrue (matrix ! nat (box_y b))"
    by (simp_all add: anchorRows_def)
  have rows: "significantRow lmw (matrix ! nat k) \<and> 5 \<le> rowWidthOf (matrix ! nat k)
        \<and> rowWidthOf (matrix ! nat k) \<le> ?w"
    if "box_y b \<le> k" "k < box_y b + (box_height b + 1)" for k
  proof (cases "k < box_y b + box_height b")
    case True
    with old(3) that(1) show ?thesis by auto
  next
    case False
    with that(2) assms(2) have "k = int n" by simp
    with assms(4,5) show ?thesis by simp
  qed
  have top: "\<exists>k. box_y b \<le> k \<and> k < box_y b + (box_height b + 1) \<and> rowWidthOf (matrix ! nat k) = ?w"
  proof (cases "rowWidthOf (matrix ! n) \<le> box_width b")
    case True
    from old(4) obtain k where "box_y b \<le> k" "k < box_y b + box_height b"
      "rowWidthOf (matrix ! nat k) = box_width b" by blast
    with True show ?thesis by (intro exI[of _ k]) (simp add: max_def)
  next
    case False
    with assms(2) old(2) show ?thesis by (intro exI[of _ "int n"]) (simp add: max_def)
  qed
  from old(1,2,5) assms(2,3) rows top show ?thesis
    by (simp add: anchorRows_def)
qed

lemma pushIfTall_good:
  assumes "\<forall>b\<in>set acc. 8 \<le> box_height b \<and> anchorRows lmw matrix b" and "anchorRows lmw matrix box"
  shows "\<forall>b\<in>set (pushIfTall box acc). 8 \<le> box_height b \<and> anchorRows lmw matrix b"
  using assms by (simp add: pushIfTall_def)

lemma takeWhile_Not_short: "True \<in> set row \<Longrightarrow> length (takeWhile Not row) < length row"
  by (induction row) auto

lemma indices_found:
  assumes "True \<in> set row"
  shows "indexOfTrue row \<noteq> - 1 \<and> lastIndexOfTrue row \<noteq> - 1"
proof -
  from assms have "True \<in> set (rev row)" by simp
  from takeWhile_Not_short[OF this] have "length (takeWhile Not (rev row)) < length row" by simp
  with assms show ?thesis by (simp add: indexOfTrue_def lastIndexOfTrue_def)
qed

lemma groupRows_good:
  assumes "rows = drop n matrix" and "py = int n"
    and "\<forall>b\<in>set acc. 8 \<le> box_height b \<and> anchorRows lmw matrix b"
    and "\<forall>b. cur = Some b \<longrightarrow> anchorRows lmw matrix b \<and> box_y b + box_height b = py"
  shows "\<forall>b\<in>set (groupRows lmw rows py cur acc). 8 \<le> box_height b \<and> anchorRows lmw matrix b"
  using assms
proof (induction rows arbitrary: n py cur acc)
  case Nil
  show ?case
  proof (cases cur)
    case None
    with Nil.prems(3) show ?thesis by simp
  next
    case (Some box)
    with Nil.prems(4) have "anchorRows lmw matrix box" by simp
    from pushIfTall_good[OF Nil.prems(3) this] Some show ?thesis by simp
  qed
next
  case (Cons row rest)
  have n: "n < length matrix"
  proof (rule ccontr)
    assume "\<not> n < length matrix"
    then have "drop n matrix = []" by simp
    with Cons.prems(1) show False by simp
  qed
  from Cons_nth_drop_Suc[OF n] Cons.prems(1) have "row # rest = matrix ! n # drop (Suc n) matrix"
    by simp
  then have row: "row = matrix ! n" and rest: "rest = drop (Suc n) matrix"
    by simp_all
  have next_py: "py + 1 = int (Suc n)" using Cons.prems(2) by simp
  have closed: "\<forall>b\<in>set (groupRows lmw rest (py + 1) None acc'). 8 \<le> box_height b \<and> anchorRows lmw matrix b"
    if "\<forall>b\<in>set acc'. 8 \<le> box_height b \<and> anchorRows lmw matrix b" for acc'
    by (rule Cons.IH[OF rest next_py that]) simp
  have ended: "\<forall>b\<in>set (case cur of
          Some box \<Rightarrow> groupRows lmw rest (py + 1) None (pushIfTall box acc)
        | None \<Rightarrow> groupRows lmw rest (py + 1) None acc). 8 \<le> box_height b \<and> anchorRows lmw matrix b"
  proof (cases cur)
    case None
    then show ?thesis using closed[OF Cons.prems(3)] by simp
  next
    case (Some box)
    with Cons.prems(4) have "anchorRows lmw matrix box" by simp
    from closed[OF pushIfTall_good[OF Cons.prems(3) this]] Some show ?thesis by simp
  qed
  show ?case
  proof (cases "significantRow lmw row")
    case False
    with ended show ?thesis by simp
  next
    case sig: True
    show ?thesis
    proof (cases "indexOfTrue row \<noteq> - 1 \<and> lastIndexOfTrue row \<noteq> - 1")
      case False
      have "\<forall>b. cur = Some b \<longrightarrow> anchorRows lmw matrix b \<and> box_y b + box_height b = py + 1 \<Longrightarrow> True"
        by simp
      have "\<not> significantRow lmw row"
      proof -
        from False indices_found[of row] have "True \<notin> set row"
          by blast
        then have "filter (\<lambda>cell. cell) row = []"
          by (induction row) auto
        then show ?thesis by (simp add: significantRow_def)
      qed
      with sig show ?thesis by simp
    next
      case found: True
      show ?thesis
      proof (cases "5 \<le> rowWidthOf row")
        case False
        with sig found ended show ?thesis
          by (simp add: rowWidthOf_def Let_def)
      next
        case wide: True
        show ?thesis
        proof (cases cur)
          case None
          let ?box = "\<lparr>box_x = indexOfTrue row, box_y = py, box_width = rowWidthOf row, box_height = 1\<rparr>"
          have "anchorRows lmw matrix ?box"
            using anchorRows_start[OF n] sig wide row Cons.prems(2) by simp
          then have "\<forall>b. Some ?box = Some b \<longrightarrow> anchorRows lmw matrix b \<and> box_y b + box_height b = py + 1"
            by simp
          from Cons.IH[OF rest next_py Cons.prems(3) this] None sig found wide show ?thesis
            by (simp add: rowWidthOf_def Let_def)
        next
          case (Some box)
          let ?box = "box\<lparr>box_width := max (box_width box) (rowWidthOf row), box_height := box_height box + 1\<rparr>"
          from Some Cons.prems(4) have b: "anchorRows lmw matrix box" "box_y box + box_height box = int n"
            using Cons.prems(2) by simp_all
          have "anchorRows lmw matrix ?box"
            using anchorRows_extend[OF b n] sig wide row by simp
          moreover have "box_y ?box + box_height ?box = py + 1"
            using b(2) Cons.prems(2) by simp
          ultimately have "\<forall>b. Some ?box = Some b \<longrightarrow> anchorRows lmw matrix b \<and> box_y b + box_height b = py + 1"
            by simp
          from Cons.IH[OF rest next_py Cons.prems(3) this] Some sig found wide show ?thesis
            by (simp add: rowWidthOf_def Let_def)
        qed
      qed
    qed
  qed
qed

subsection \<open>Evaluation at the concrete image\<close>

lemma upt_6: "[0..<6] = [0, 1, 2, 3, 4, 5]"
  by code_simp

lemma upt_8: "[0..<8] = [0, 1, 2, 3, 4, 5, 6, 7]"
  by code_simp

lemma ex_anchor_red:
  assumes "px < 60" "py < 8"
  shows "redPixelAt ex_anchor_image (int px) (int py)
     = ((py = 0 \<and> px < 5) \<or> (0 < py \<and> 1 \<le> px \<and> px \<le> 5))"
proof -
  define f :: "nat \<Rightarrow> 8 word list" where
    "f = (\<lambda>i. if (i div 60 = 0 \<and> i mod 60 < 5) \<or> (0 < i div 60 \<and> 1 \<le> i mod 60 \<and> i mod 60 \<le> 5)
                then [255, 0, 0] else [255, 255, 255])"
  define buf where "buf = concat (map f [0..<480])"
  define i where "i = py * 60 + px"
  have img: "imageBuffer ex_anchor_image = buf" "img_width ex_anchor_image = 60"
    by (simp_all add: ex_anchor_image_def buf_def f_def)
  have len3: "\<And>k. length (f k) = 3" by (simp add: f_def)
  have len: "length buf = 3 * 480" unfolding buf_def using len3 by (rule concat_blocks_length)
  have i: "i < 480" using assms by (simp add: i_def)
  have idx: "(int py * 60 + int px) * 3 = int (3 * i)" by (simp add: i_def)
  have rd: "bufferAt buf (int (3 * i) + int j) = Some (uint (f i ! j))" if "j < 3" for j
  proof -
    have "3 * i + j < length buf" using len i that by simp
    moreover have "buf ! (3 * i + j) = f i ! j"
      unfolding buf_def using len3 i that by (rule concat_blocks_nth)
    moreover have "nat (int (3 * i) + int j) = 3 * i + j" by simp
    ultimately show ?thesis unfolding bufferAt_def by simp
  qed
  have r0: "bufferAt buf (int (3 * i)) = Some (uint (f i ! 0))" using rd[of 0] by simp
  have r1: "bufferAt buf (int (3 * i) + 1) = Some (uint (f i ! 1))" using rd[of 1] by simp
  have r2: "bufferAt buf (int (3 * i) + 2) = Some (uint (f i ! 2))" using rd[of 2] by simp
  have guard: "int (3 * i) + 2 < int (length buf)" using len i by simp
  have "redPixelAt ex_anchor_image (int px) (int py)
      = redRead (Some (uint (f i ! 0)), Some (uint (f i ! 1)), Some (uint (f i ! 2)))"
    by (simp only: redPixelAt_def img Let_def idx r0 r1 r2 guard if_True)
  also have "\<dots> = ((i div 60 = 0 \<and> i mod 60 < 5) \<or> (0 < i div 60 \<and> 1 \<le> i mod 60 \<and> i mod 60 \<le> 5))"
    by (simp add: f_def redRead_def isBrightRedPixel_def)
  also have "i div 60 = py" using assms by (simp add: i_def)
  also have "i mod 60 = px" using assms by (simp add: i_def)
  finally show ?thesis .
qed

lemma ex_anchor_margin: "leftMarginWidth ex_anchor_image = 6"
  by (simp add: leftMarginWidth_def ex_anchor_image_def)

lemma ex_anchor_matrix:
  "redPixelMatrix ex_anchor_image
     = [[True, True, True, True, True, False],
        [False, True, True, True, True, True],
        [False, True, True, True, True, True],
        [False, True, True, True, True, True],
        [False, True, True, True, True, True],
        [False, True, True, True, True, True],
        [False, True, True, True, True, True],
        [False, True, True, True, True, True]]"
proof -
  have h: "nat (img_height ex_anchor_image) = 8" by (simp add: ex_anchor_image_def)
  have "redPixelMatrix ex_anchor_image
      = map (\<lambda>py. map (\<lambda>px. (py = 0 \<and> px < 5) \<or> (0 < py \<and> 1 \<le> px \<and> px \<le> 5)) [0..<6]) [0..<8]"
    unfolding redPixelMatrix_def ex_anchor_margin h
    by (intro map_cong refl) (auto simp: ex_anchor_red)
  also have "\<dots> = [[True, True, True, True, True, False],
        [False, True, True, True, True, True],
        [False, True, True, True, True, True],
        [False, True, True, True, True, True],
        [False, True, True, True, True, True],
        [False, True, True, True, True, True],
        [False, True, True, True, True, True],
        [False, True, True, True, True, True]]"
    unfolding upt_6 upt_8 by simp
  finally show ?thesis .
qed

lemma ex_anchor_spans:
  "indexOfTrue [True, True, True, True, True, False] = 0"
  "lastIndexOfTrue [True, True, True, True, True, False] = 4"
  "indexOfTrue [False, True, True, True, True, True] = 1"
  "lastIndexOfTrue [False, True, True, True, True, True] = 5"
  by (simp_all add: indexOfTrue_def lastIndexOfTrue_def)

lemma ex_anchor_significant:
  "significantRow 6 [True, True, True, True, True, False]"
  "significantRow 6 [False, True, True, True, True, True]"
  by (simp_all add: significantRow_def)

lemma ex_anchor_boxes:
  "findRedAnchorBoxes ex_anchor_image
     = Inr [\<lparr>box_x = 0, box_y = 0, box_width = 5, box_height = 8\<rparr>]"
  unfolding findRedAnchorBoxes_def ex_anchor_matrix ex_anchor_margin
  by (simp add: ex_anchor_spans ex_anchor_significant pushIfTall_def ex_anchor_image_def)

subsection \<open>Rows and horizontal extent of an anchor box\<close>

text \<open>
  What the grouping loop guarantees for a raster of 3 bytes per pixel, which is what the
  function presumes of its buffer: every box that \<^verbatim>\<open>findRedAnchorBoxes\<close> returns spans at
  least 8 contiguous rows; in each of them more than 10 percent of the pixels of the left
  margin (a tenth of the width) are bright red, and the span from the leftmost to the
  rightmost red pixel is at least 5 wide. The box's \<open>x\<close> is the leftmost red pixel of its
  first row, and its width is the largest span width among its rows.
\<close>

lemma findRedAnchorBoxes_rows:
  assumes "img_channels img = 3"
    and "findRedAnchorBoxes img = Inr boxes" and "box \<in> set boxes"
  shows "8 \<le> box_height box \<and> 0 \<le> box_y box \<and> box_y box + box_height box \<le> img_height img
     \<and> (\<forall>k. box_y box \<le> k \<and> k < box_y box + box_height box \<longrightarrow>
           real (length (filter (\<lambda>cell. cell) (redPixelMatrix img ! nat k)))
               / real_of_int (leftMarginWidth img) > 1 / 10
           \<and> 5 \<le> rowWidthOf (redPixelMatrix img ! nat k)
           \<and> rowWidthOf (redPixelMatrix img ! nat k) \<le> box_width box)
     \<and> (\<exists>k. box_y box \<le> k \<and> k < box_y box + box_height box
           \<and> rowWidthOf (redPixelMatrix img ! nat k) = box_width box)
     \<and> box_x box = indexOfTrue (redPixelMatrix img ! nat (box_y box))"
proof -
  let ?M = "redPixelMatrix img"
  let ?w = "leftMarginWidth img"
  from assms(2) have boxes: "boxes = groupRows ?w ?M 0 None []"
    by (simp add: findRedAnchorBoxes_def split: if_splits)
  have "\<forall>b\<in>set (groupRows ?w ?M 0 None []). 8 \<le> box_height b \<and> anchorRows ?w ?M b"
    by (rule groupRows_good[where n = 0]) simp_all
  with assms(3) boxes have tall: "8 \<le> box_height box" and rows: "anchorRows ?w ?M box"
    by simp_all
  have len: "length ?M = nat (img_height img)"
    by (simp add: redPixelMatrix_def)
  from rows have "0 \<le> box_y box" "1 \<le> box_height box" "box_y box + box_height box \<le> int (length ?M)"
    by (simp_all add: anchorRows_def)
  then have inside: "box_y box + box_height box \<le> img_height img"
    unfolding len by linarith
  from rows tall inside show ?thesis
    by (simp add: anchorRows_def significantRow_def)
qed

text \<open>
  Claim C6 at a concrete image. The image is a raster of 60 by 8 pixels with 3 bytes per
  pixel: the first row is bright red in the columns 0 to 4, the seven rows below it in the
  columns 1 to 5, and every other pixel is white. All eight rows have more than 10 percent
  red pixels in the margin of 6 columns and a span of 5, so they form one box. The union of
  the row spans is the columns 0 to 5. The loop takes \<open>x\<close> from the first row and never
  moves it, while it widens the box by \<^verbatim>\<open>Math.max(currentBox.width, rowWidth)\<close>: the box
  returned starts at 0 with width 5, covers the columns 0 to 4, and leaves the red pixel in
  column 5 of row 1 outside.
\<close>

theorem findRedAnchorBoxes_extent_at_image:
  "img_channels ex_anchor_image = 3
   \<and> length (imageBuffer ex_anchor_image)
        = nat (img_width ex_anchor_image * img_height ex_anchor_image * 3)
   \<and> redPixelMatrix ex_anchor_image
     = [[True, True, True, True, True, False],
        [False, True, True, True, True, True],
        [False, True, True, True, True, True],
        [False, True, True, True, True, True],
        [False, True, True, True, True, True],
        [False, True, True, True, True, True],
        [False, True, True, True, True, True],
        [False, True, True, True, True, True]]
   \<and> findRedAnchorBoxes ex_anchor_image = Inr [\<lparr>box_x = 0, box_y = 0, box_width = 5, box_height = 8\<rparr>]
   \<and> indexOfTrue (redPixelMatrix ex_anchor_image ! 0) = 0
   \<and> lastIndexOfTrue (redPixelMatrix ex_anchor_image ! 0) = 4
   \<and> indexOfTrue (redPixelMatrix ex_anchor_image ! 1) = 1
   \<and> lastIndexOfTrue (redPixelMatrix ex_anchor_image ! 1) = 5
   \<and> redPixelAt ex_anchor_image 5 1
   \<and> \<not> 5 < box_x \<lparr>box_x = 0, box_y = 0, box_width = 5, box_height = 8\<rparr>
             + box_width \<lparr>box_x = 0, box_y = 0, box_width = 5, box_height = 8\<rparr>"
proof -
  have "redPixelAt ex_anchor_image (int 5) (int 1)"
    by (subst ex_anchor_red) simp_all
  then have red: "redPixelAt ex_anchor_image 5 1" by simp
  have "length (imageBuffer ex_anchor_image) = 3 * 480"
    unfolding ex_anchor_image_def RawImage.select_convs
    by (rule concat_blocks_length) simp
  then have raster: "img_channels ex_anchor_image = 3
      \<and> length (imageBuffer ex_anchor_image)
          = nat (img_width ex_anchor_image * img_height ex_anchor_image * 3)"
    by (simp add: ex_anchor_image_def)
  have spans: "indexOfTrue (redPixelMatrix ex_anchor_image ! 0) = 0
      \<and> lastIndexOfTrue (redPixelMatrix ex_anchor_image ! 0) = 4
      \<and> indexOfTrue (redPixelMatrix ex_anchor_image ! 1) = 1
      \<and> lastIndexOfTrue (redPixelMatrix ex_anchor_image ! 1) = 5"
    by (simp add: ex_anchor_matrix ex_anchor_spans)
  from raster ex_anchor_matrix ex_anchor_boxes spans red show ?thesis
    by simp
qed

end
